theory Spec2Isabelle
  imports Main
begin

section \<open>The platform the crawler runs on\<close>

text \<open>
  \<^verbatim>\<open>crawl.ts\<close> calls three facilities it does not define: the \<^verbatim>\<open>URL\<close> class,
  the \<^verbatim>\<open>JSDOM\<close> HTML parser and \<^verbatim>\<open>fetch\<close>. They are parameters of every
  function below, collected in a record \<open>platform\<close>, so each general theorem holds for
  whatever these facilities answer. A concrete platform (\<open>web\<close>, further down) is used
  to run the functions on concrete inputs.

  Strings are lists of 8-bit characters, read as code units below 256.
\<close>

text \<open>
  The errors that reach a caller: the \<^verbatim>\<open>TypeError\<close> of \<^verbatim>\<open>new URL\<close>, the error that
  \<^verbatim>\<open>getHTML\<close> makes of a rejected \<^verbatim>\<open>fetch\<close>, with its message, and the error
  with which \<^verbatim>\<open>res.text()\<close> rejects.
\<close>

datatype error = TypeError | NetworkError string | BodyError

text \<open>The properties of a \<^verbatim>\<open>URL\<close> object; \<open>href\<close> is what \<^verbatim>\<open>toString()\<close> returns.\<close>

record url =
  href :: string
  host :: string
  hostname :: string
  pathname :: string
  search :: string
  hash :: string

text \<open>
  A DOM node: an element with its local name, its attributes in source order and its
  children, or a text node.
\<close>

datatype node = Element string "(string \<times> string) list" "node list" | Text string

text \<open>
  What \<^verbatim>\<open>fetch\<close> delivers: the promise rejects with a message, or resolves with a
  response, of which the code reads the status, the status text, the \<^verbatim>\<open>content-type\<close>
  header (\<open>None\<close> for \<^verbatim>\<open>null\<close>) and, with \<^verbatim>\<open>res.text()\<close>, the body: \<open>body_text\<close>
  is \<open>None\<close> when that promise rejects, as it does when the transfer of the body
  fails after the response has arrived.
\<close>

record response =
  status :: nat
  statusText :: string
  content_type :: "string option"
  body_text :: "string option"

datatype fetch_outcome = Rejected string | Responded response

text \<open>
  \<open>URL_new input base\<close> is \<^verbatim>\<open>new URL(input, base)\<close> (\<open>None\<close> for the
  \<^verbatim>\<open>TypeError\<close> it throws on an unparseable input), \<open>JSDOM_new html\<close> the document
  element of \<^verbatim>\<open>new JSDOM(html).window.document\<close> (\<open>None\<close> if the constructor
  throws).
\<close>

record platform =
  URL_new :: "string \<Rightarrow> string option \<Rightarrow> url option"
  JSDOM_new :: "string \<Rightarrow> node option"
  fetch :: "string \<Rightarrow> fetch_outcome"

section \<open>A concrete URL parser\<close>

text \<open>
  A model of the URL parser of the WHATWG URL standard on a fragment of its inputs:
  \<^verbatim>\<open>http\<close> and \<^verbatim>\<open>https\<close> URLs without credentials, whose host is a dotted
  sequence of non-empty labels of letters, digits and underscores, the last one
  starting with a letter or an underscore, with
  an optional decimal port, whose path is made of unreserved characters and slashes,
  without dot segments, and whose query and fragment are made of unreserved characters
  and \<^verbatim>\<open>/ = &\<close>; and the references that resolve against such a base with these
  characters. On this fragment the standard lowercases scheme and host, drops a
  default port, makes an empty path \<^verbatim>\<open>/\<close> and copies the rest. Every other input
  is answered with \<open>None\<close>, also where the standard accepts it; the parser is used
  on concrete inputs of the fragment only.
\<close>

definition ascii_lower :: "char \<Rightarrow> char" where
  "ascii_lower c =
     (let n = (of_char c :: nat) in if 65 \<le> n \<and> n \<le> 90 then char_of (n + 32) else c)"

definition is_alpha :: "char \<Rightarrow> bool" where
  "is_alpha c = (let n = (of_char c :: nat) in (65 \<le> n \<and> n \<le> 90) \<or> (97 \<le> n \<and> n \<le> 122))"

definition is_digit :: "char \<Rightarrow> bool" where
  "is_digit c = (let n = (of_char c :: nat) in 48 \<le> n \<and> n \<le> 57)"

definition is_alnum :: "char \<Rightarrow> bool" where
  "is_alnum c = (is_alpha c \<or> is_digit c)"

definition is_unreserved :: "char \<Rightarrow> bool" where
  "is_unreserved c = (is_alnum c \<or> c \<in> set ''-._~'')"

fun split_on :: "char \<Rightarrow> string \<Rightarrow> string list" where
  "split_on d [] = [[]]"
| "split_on d (c # cs) =
     (if c = d then [] # split_on d cs
      else (case split_on d cs of [] \<Rightarrow> [[c]] | w # ws \<Rightarrow> (c # w) # ws))"

text \<open>The URL record of the standard: scheme, host, port, path, query, fragment.\<close>

record url_parts =
  scheme :: string
  host_part :: string
  port_part :: "string option"
  path_part :: string
  query_part :: "string option"
  fragment_part :: "string option"

definition is_label_char :: "char \<Rightarrow> bool" where
  "is_label_char c = (is_alnum c \<or> c = CHR ''_'')"

definition valid_host :: "string \<Rightarrow> bool" where
  "valid_host h =
     (let ls = split_on (CHR ''.'') h
      in list_all (\<lambda>l. l \<noteq> [] \<and> list_all is_label_char l) ls
         \<and> (is_alpha (hd (last ls)) \<or> hd (last ls) = CHR ''_''))"

definition default_port :: "string \<Rightarrow> string" where
  "default_port sch = (if sch = ''http'' then ''80'' else ''443'')"

text \<open>Comparison of two decimal numerals of the same length, digit by digit.\<close>

fun digits_le :: "string \<Rightarrow> string \<Rightarrow> bool" where
  "digits_le [] bs = True"
| "digits_le (a # as) [] = False"
| "digits_le (a # as) (b # bs) =
     ((of_char a :: nat) < of_char b \<or> (a = b \<and> digits_le as bs))"

text \<open>The port after the colon: none, or digits up to 65535, leading zeros dropped.\<close>

definition parse_port :: "string \<Rightarrow> string \<Rightarrow> string option option" where
  "parse_port sch ds =
     (if ds = [] then Some None
      else if \<not> list_all is_digit ds then None
      else (let t = dropWhile (\<lambda>c. c = CHR ''0'') ds; p = (if t = [] then ''0'' else t)
            in if 5 < length p \<or> (length p = 5 \<and> \<not> digits_le p ''65535'') then None
               else Some (if p = default_port sch then None else Some p)))"

definition valid_path :: "string \<Rightarrow> bool" where
  "valid_path p =
     (list_all (\<lambda>c. is_unreserved c \<or> c = CHR ''/'') p
      \<and> list_all (\<lambda>seg. seg \<noteq> ''.'' \<and> seg \<noteq> ''..'') (split_on (CHR ''/'') p))"

definition valid_query :: "string \<Rightarrow> bool" where
  "valid_query q = list_all (\<lambda>c. is_unreserved c \<or> c \<in> set ''/=&'') q"

text \<open>
  Path, query and fragment of the remainder of an input: the path ends at the first
  \<^verbatim>\<open>?\<close> or \<^verbatim>\<open>#\<close>, the query at the first \<^verbatim>\<open>#\<close>.
\<close>

definition parse_tail :: "string \<Rightarrow> (string \<times> string option \<times> string option) option" where
  "parse_tail r =
     (let p = takeWhile (\<lambda>c. c \<noteq> CHR ''?'' \<and> c \<noteq> CHR ''#'') r;
          r1 = dropWhile (\<lambda>c. c \<noteq> CHR ''?'' \<and> c \<noteq> CHR ''#'') r;
          q = (if r1 \<noteq> [] \<and> hd r1 = CHR ''?''
               then Some (takeWhile (\<lambda>c. c \<noteq> CHR ''#'') (tl r1)) else None);
          r2 = dropWhile (\<lambda>c. c \<noteq> CHR ''#'') r1;
          f = (if r2 \<noteq> [] then Some (tl r2) else None)
      in if valid_path p \<and> (case q of None \<Rightarrow> True | Some q' \<Rightarrow> valid_query q')
            \<and> (case f of None \<Rightarrow> True | Some f' \<Rightarrow> valid_query f')
         then Some (p, q, f) else None)"

text \<open>What follows \<^verbatim>\<open>scheme://\<close>: the authority up to the first of \<^verbatim>\<open>/ ? #\<close>, then the tail.\<close>

definition parse_after_scheme :: "string \<Rightarrow> string \<Rightarrow> url_parts option" where
  "parse_after_scheme sch s =
     (let stop = (\<lambda>c. c = CHR ''/'' \<or> c = CHR ''?'' \<or> c = CHR ''#'');
          auth = takeWhile (\<lambda>c. \<not> stop c) s;
          r = dropWhile (\<lambda>c. \<not> stop c) s;
          h = takeWhile (\<lambda>c. c \<noteq> CHR '':'') auth;
          pt = dropWhile (\<lambda>c. c \<noteq> CHR '':'') auth
      in if \<not> valid_host h then None
         else (case parse_port sch (tl pt) of None \<Rightarrow> None
          | Some po \<Rightarrow>
             (case parse_tail r of None \<Rightarrow> None
              | Some (p, q, f) \<Rightarrow>
                  Some \<lparr>scheme = sch, host_part = map ascii_lower h, port_part = po,
                        path_part = (if p = [] then ''/'' else p),
                        query_part = q, fragment_part = f\<rparr>)))"

definition parse_absolute :: "string \<Rightarrow> url_parts option" where
  "parse_absolute s =
     (let sch = map ascii_lower (takeWhile (\<lambda>c. c \<noteq> CHR '':'') s);
          r = dropWhile (\<lambda>c. c \<noteq> CHR '':'') s
      in if (sch = ''http'' \<or> sch = ''https'') \<and> take 3 r = ''://''
         then parse_after_scheme sch (drop 3 r) else None)"

text \<open>The last segment of the base path is dropped before a relative path is appended.\<close>

definition shorten :: "string \<Rightarrow> string" where
  "shorten p = rev (dropWhile (\<lambda>c. c \<noteq> CHR ''/'') (rev p))"

definition parse_relative :: "url_parts \<Rightarrow> string \<Rightarrow> url_parts option" where
  "parse_relative b s =
     (if s = [] then Some (b\<lparr>fragment_part := None\<rparr>)
      else if take 2 s = ''//'' then parse_after_scheme (scheme b) (drop 2 s)
      else (case parse_tail s of None \<Rightarrow> None
        | Some (p, q, f) \<Rightarrow>
            if p = [] \<and> q = None then Some (b\<lparr>fragment_part := f\<rparr>)
            else if p = [] then Some (b\<lparr>query_part := q, fragment_part := f\<rparr>)
            else if hd p = CHR ''/''
              then Some (b\<lparr>path_part := p, query_part := q, fragment_part := f\<rparr>)
            else Some (b\<lparr>path_part := shorten (path_part b) @ p,
                         query_part := q, fragment_part := f\<rparr>)))"

definition has_scheme :: "string \<Rightarrow> bool" where
  "has_scheme s =
     (CHR '':'' \<in> set (takeWhile (\<lambda>c. c \<noteq> CHR ''/'' \<and> c \<noteq> CHR ''?'' \<and> c \<noteq> CHR ''#'') s))"

definition url_of_parts :: "url_parts \<Rightarrow> url" where
  "url_of_parts u =
     (let hst = host_part u @ (case port_part u of None \<Rightarrow> [] | Some p \<Rightarrow> CHR '':'' # p)
      in \<lparr>href = scheme u @ ''://'' @ hst @ path_part u
                  @ (case query_part u of None \<Rightarrow> [] | Some q \<Rightarrow> CHR ''?'' # q)
                  @ (case fragment_part u of None \<Rightarrow> [] | Some f \<Rightarrow> CHR ''#'' # f),
          host = hst,
          hostname = host_part u,
          pathname = path_part u,
          search = (case query_part u of None \<Rightarrow> [] | Some q \<Rightarrow> if q = [] then [] else CHR ''?'' # q),
          hash = (case fragment_part u of None \<Rightarrow> [] | Some f \<Rightarrow> if f = [] then [] else CHR ''#'' # f)\<rparr>)"

definition whatwg_URL :: "string \<Rightarrow> string option \<Rightarrow> url option" where
  "whatwg_URL input base =
     (case base of
        None \<Rightarrow> map_option url_of_parts (parse_absolute input)
      | Some b \<Rightarrow>
          (case parse_absolute b of None \<Rightarrow> None
           | Some bp \<Rightarrow>
               map_option url_of_parts
                 (if has_scheme input then parse_absolute input else parse_relative bp input)))"

section \<open>URL normalizer\<close>

text \<open>
  \<^verbatim>\<open>normalizeURL\<close>: host and pathname of the parsed URL, concatenated, without one
  trailing slash. The \<^verbatim>\<open>TypeError\<close> of \<^verbatim>\<open>new URL\<close> propagates.
\<close>

definition normalizeURL :: "platform \<Rightarrow> string \<Rightarrow> error + string" where
  "normalizeURL P u =
     (case URL_new P u None of
        None \<Rightarrow> Inl TypeError
      | Some urlObj \<Rightarrow>
          (let fullPath = host urlObj @ pathname urlObj
           in if fullPath \<noteq> [] \<and> last fullPath = CHR ''/''
              then Inr (butlast fullPath) else Inr fullPath))"

section \<open>DOM queries\<close>

text \<open>
  The part of the DOM interface the extractors use. \<open>elements n\<close> lists the element
  \<open>n\<close> and its descendant elements in document order, which is the order in which
  \<^verbatim>\<open>querySelectorAll\<close> reports matches and in which \<^verbatim>\<open>querySelector\<close> looks
  for the first one. On the document the root element takes part in the match; on an
  element only its descendants do.
\<close>

fun elements :: "node \<Rightarrow> node list" where
  "elements (Text t) = []"
| "elements (Element tag attrs cs) = Element tag attrs cs # concat (map elements cs)"

fun descendants :: "node \<Rightarrow> node list" where
  "descendants (Text t) = []"
| "descendants (Element tag attrs cs) = concat (map elements cs)"

fun textContent :: "node \<Rightarrow> string" where
  "textContent (Text t) = t"
| "textContent (Element tag attrs cs) = concat (map textContent cs)"

fun tagName :: "node \<Rightarrow> string" where
  "tagName (Text t) = []"
| "tagName (Element tag attrs cs) = tag"

fun getAttribute :: "node \<Rightarrow> string \<Rightarrow> string option" where
  "getAttribute (Text t) name = None"
| "getAttribute (Element tag attrs cs) name = map_of attrs name"

definition first_match :: "string \<Rightarrow> node list \<Rightarrow> node option" where
  "first_match sel es = (case filter (\<lambda>e. tagName e = sel) es of [] \<Rightarrow> None | e # _ \<Rightarrow> Some e)"

definition doc_querySelectorAll :: "node \<Rightarrow> string \<Rightarrow> node list" where
  "doc_querySelectorAll doc sel = filter (\<lambda>e. tagName e = sel) (elements doc)"

definition doc_querySelector :: "node \<Rightarrow> string \<Rightarrow> node option" where
  "doc_querySelector doc sel = first_match sel (elements doc)"

definition querySelector :: "node \<Rightarrow> string \<Rightarrow> node option" where
  "querySelector el sel = first_match sel (descendants el)"

text \<open>\<^verbatim>\<open>String.prototype.trim\<close>, on the white space and line terminators below 256.\<close>

definition is_space :: "char \<Rightarrow> bool" where
  "is_space c = ((of_char c :: nat) \<in> {9, 10, 11, 12, 13, 32, 160})"

definition trim :: "string \<Rightarrow> string" where
  "trim s = rev (dropWhile is_space (rev (dropWhile is_space s)))"

text \<open>\<^verbatim>\<open>String.prototype.includes\<close>: \<open>t\<close> occurs in \<open>s\<close> as a contiguous substring.\<close>

fun str_includes :: "string \<Rightarrow> string \<Rightarrow> bool" where
  "str_includes [] t = (t = [])"
| "str_includes (c # cs) t = (take (length t) (c # cs) = t \<or> str_includes cs t)"

section \<open>Page extractor\<close>

definition getH1FromHTML :: "platform \<Rightarrow> string \<Rightarrow> string" where
  "getH1FromHTML P html =
     (case JSDOM_new P html of
        None \<Rightarrow> []
      | Some doc \<Rightarrow>
          (let h1 = doc_querySelector doc ''h1''
           in trim (case h1 of None \<Rightarrow> [] | Some e \<Rightarrow> textContent e)))"

text \<open>
  \<^verbatim>\<open>main?.querySelector("p") ?? doc.querySelector("p")\<close>: the left operand is
  \<^verbatim>\<open>undefined\<close> without a \<^verbatim>\<open>main\<close> and \<^verbatim>\<open>null\<close> when \<^verbatim>\<open>main\<close> has no
  \<^verbatim>\<open>p\<close>; both give way to the right operand.
\<close>

definition getFirstParagraphFromHTML :: "platform \<Rightarrow> string \<Rightarrow> string" where
  "getFirstParagraphFromHTML P html =
     (case JSDOM_new P html of
        None \<Rightarrow> []
      | Some doc \<Rightarrow>
          (let main = doc_querySelector doc ''main'';
               p = (case (case main of None \<Rightarrow> None | Some m \<Rightarrow> querySelector m ''p'') of
                      None \<Rightarrow> doc_querySelector doc ''p''
                    | Some e \<Rightarrow> Some e)
           in trim (case p of None \<Rightarrow> [] | Some e \<Rightarrow> textContent e)))"

text \<open>
  The \<^verbatim>\<open>forEach\<close> callback of \<^verbatim>\<open>getURLsFromHTML\<close> and \<^verbatim>\<open>getImagesFromHTML\<close>,
  which differ in the selector and the attribute only: the value is read, a falsy one
  (\<^verbatim>\<open>null\<close> or the empty string) ends the callback, a value that \<^verbatim>\<open>new URL\<close>
  rejects is logged, and the string of a resolved one is pushed.
\<close>

fun forEach_push :: "platform \<Rightarrow> string \<Rightarrow> string \<Rightarrow> node list \<Rightarrow> string list \<Rightarrow> string list" where
  "forEach_push P attr baseURL [] urls = urls"
| "forEach_push P attr baseURL (el # els) urls =
     (case getAttribute el attr of
        None \<Rightarrow> forEach_push P attr baseURL els urls
      | Some v \<Rightarrow>
          if v = [] then forEach_push P attr baseURL els urls
          else (case URL_new P v (Some baseURL) of
                  None \<Rightarrow> forEach_push P attr baseURL els urls
                | Some absoluteURL \<Rightarrow> forEach_push P attr baseURL els (urls @ [href absoluteURL])))"

definition getURLsFromHTML :: "platform \<Rightarrow> string \<Rightarrow> string \<Rightarrow> string list" where
  "getURLsFromHTML P html baseURL =
     (case JSDOM_new P html of
        None \<Rightarrow> []
      | Some doc \<Rightarrow> forEach_push P ''href'' baseURL (doc_querySelectorAll doc ''a'') [])"

definition getImagesFromHTML :: "platform \<Rightarrow> string \<Rightarrow> string \<Rightarrow> string list" where
  "getImagesFromHTML P html baseURL =
     (case JSDOM_new P html of
        None \<Rightarrow> []
      | Some doc \<Rightarrow> forEach_push P ''src'' baseURL (doc_querySelectorAll doc ''img'') [])"

record ExtractedPageData =
  url :: string
  h1 :: string
  first_paragraph :: string
  outgoing_links :: "string list"
  image_urls :: "string list"

definition extractPageData :: "platform \<Rightarrow> string \<Rightarrow> string \<Rightarrow> ExtractedPageData" where
  "extractPageData P html pageURL =
     \<lparr>url = pageURL,
      h1 = getH1FromHTML P html,
      first_paragraph = getFirstParagraphFromHTML P html,
      outgoing_links = getURLsFromHTML P html pageURL,
      image_urls = getImagesFromHTML P html pageURL\<rparr>"

section \<open>Fetcher\<close>

text \<open>
  \<^verbatim>\<open>getHTML\<close> calls \<^verbatim>\<open>fetch\<close> once. \<open>Inl\<close> is the error it throws: the one it
  makes of a rejected \<^verbatim>\<open>fetch\<close>, or the one of \<^verbatim>\<open>res.text()\<close>, whose promise it
  returns as it is. \<open>Inr None\<close> is the \<^verbatim>\<open>undefined\<close> of its two bare \<^verbatim>\<open>return\<close>s,
  \<open>Inr (Some body)\<close> the text of the response.
\<close>

definition getHTML :: "platform \<Rightarrow> string \<Rightarrow> error + string option" where
  "getHTML P u =
     (case fetch P u of
        Rejected msg \<Rightarrow> Inl (NetworkError (''Got Network error: '' @ msg))
      | Responded res \<Rightarrow>
          if status res > 399 then Inr None
          else (case content_type res of
                  None \<Rightarrow> Inr None
                | Some contentType \<Rightarrow>
                    if contentType = [] \<or> \<not> str_includes contentType ''text/html'' then Inr None
                    else (case body_text res of
                            None \<Rightarrow> Inl BodyError
                          | Some body \<Rightarrow> Inr (Some body))))"

section \<open>Crawl engine\<close>

text \<open>
  The \<^verbatim>\<open>pages\<close> object is an ordinary JavaScript object with the prototype
  \<^verbatim>\<open>Object.prototype\<close>, as \<^verbatim>\<open>{}\<close> and every object literal are, whose own
  properties hold numbers; the model keeps its own properties, a map from keys to
  counts.

  A count is a number that is an integer. On these, \<^verbatim>\<open>++\<close> adds one as long as the
  result is a double, which it is below \<open>2^53\<close>; from there on the sum is rounded to
  the nearest double, to the one with the even significand when two are as near:
  \<open>2^53\<close> stays, between \<open>2^53\<close> and \<open>2^54\<close> the doubles are the even integers and
  every other one of them moves on by two, and from \<open>2^54\<close> on every double stays.
  The code increments positive counts only. Numbers that are no integers are not
  modelled.
\<close>

definition js_inc :: "int \<Rightarrow> int" where
  "js_inc n =
     (if n < 9007199254740992 then n + 1
      else if n < 18014398509481984 \<and> odd (n div 2) then n + 2
      else n)"

text \<open>
  \<^verbatim>\<open>pages[k] = v\<close>: an own property is overwritten, a new one is created, except
  under the key \<^verbatim>\<open>__proto__\<close>. An object that has no own property of this name
  inherits an accessor from \<^verbatim>\<open>Object.prototype\<close>, whose setter ignores a number, so
  the assignment stores nothing. Reading \<^verbatim>\<open>pages[k]\<close> where there is no own property
  gives \<^verbatim>\<open>undefined\<close> or an inherited object, neither of which is \<^verbatim>\<open>> 0\<close>.
\<close>

definition obj_set :: "(string \<rightharpoonup> int) \<Rightarrow> string \<Rightarrow> int \<Rightarrow> (string \<rightharpoonup> int)" where
  "obj_set obj k v = (if obj k = None \<and> k = ''__proto__'' then obj else obj(k \<mapsto> v))"

text \<open>
  The state of a crawl: the \<open>pages\<close> object, which the calls mutate and hand on, and
  a trace of the run that the code does not read: \<open>Visit k\<close> for each call that passes
  the scope check with key \<open>k\<close>, \<open>Fetch u\<close> for each call of \<^verbatim>\<open>getHTML\<close>, hence of
  \<^verbatim>\<open>fetch\<close>, on \<open>u\<close>.
\<close>

datatype event = Visit string | Fetch string

record crawl_state =
  pages :: "string \<rightharpoonup> int"
  trace :: "event list"

definition init :: crawl_state where
  "init = \<lparr>pages = Map.empty, trace = []\<rparr>"

text \<open>
  \<^verbatim>\<open>crawlPage\<close> recurses as long as pages link to new pages, so the model takes a bound
  on the depth of nested calls and answers \<open>None\<close> when the bound is reached. A result
  \<open>Some (Inl e)\<close> is a call that throws \<open>e\<close>, \<open>Some (Inr s)\<close> one that returns.
  \<open>crawl_links\<close> is the \<^verbatim>\<open>for\<close> loop over \<^verbatim>\<open>nextURLs\<close>.
\<close>

function crawlPage :: "platform \<Rightarrow> nat \<Rightarrow> string \<Rightarrow> string \<Rightarrow> crawl_state \<Rightarrow> (error + crawl_state) option"
  and crawl_links :: "platform \<Rightarrow> nat \<Rightarrow> string \<Rightarrow> string list \<Rightarrow> crawl_state \<Rightarrow> (error + crawl_state) option"
where
  "crawlPage P 0 baseURL currentURL s = None"
| "crawlPage P (Suc d) baseURL currentURL s =
     (case URL_new P currentURL None of
        None \<Rightarrow> Some (Inl TypeError)
      | Some currentURLObj \<Rightarrow>
     (case URL_new P baseURL None of
        None \<Rightarrow> Some (Inl TypeError)
      | Some baseURLObj \<Rightarrow>
     if hostname currentURLObj \<noteq> hostname baseURLObj then Some (Inr s)
     else
     (case normalizeURL P currentURL of
        Inl e \<Rightarrow> Some (Inl e)
      | Inr normalizedURL \<Rightarrow>
     (case (case pages s normalizedURL of
              None \<Rightarrow> None
            | Some n \<Rightarrow> if n > 0 then Some n else None) of
        Some n \<Rightarrow>
          Some (Inr (s\<lparr>pages := obj_set (pages s) normalizedURL (js_inc n),
                        trace := trace s @ [Visit normalizedURL]\<rparr>))
      | None \<Rightarrow>
          (let s1 = s\<lparr>pages := obj_set (pages s) normalizedURL 1,
                       trace := trace s @ [Visit normalizedURL, Fetch currentURL]\<rparr>
           in case getHTML P currentURL of
                Inl err \<Rightarrow> Some (Inr s1)
              | Inr None \<Rightarrow> Some (Inr s1)
              | Inr (Some html) \<Rightarrow>
                  if html = [] then Some (Inr s1)
                  else crawl_links P d baseURL (getURLsFromHTML P html baseURL) s1)))))"
| "crawl_links P d baseURL [] s = Some (Inr s)"
| "crawl_links P d baseURL (nextURL # rest) s =
     (case crawlPage P d baseURL nextURL s of
        None \<Rightarrow> None
      | Some (Inl e) \<Rightarrow> Some (Inl e)
      | Some (Inr s') \<Rightarrow> crawl_links P d baseURL rest s')"
  by pat_completeness auto
termination
  by (relation "measures [\<lambda>x. case x of Inl (P, d, b, c, s) \<Rightarrow> 2 * d | Inr (P, d, b, us, s) \<Rightarrow> 2 * d + 1,
                          \<lambda>x. case x of Inl (P, d, b, c, s) \<Rightarrow> 0 | Inr (P, d, b, us, s) \<Rightarrow> length us]")
     auto

text \<open>The entry point: \<^verbatim>\<open>crawlPage(baseURL)\<close> with its default arguments.\<close>

definition crawl :: "platform \<Rightarrow> nat \<Rightarrow> string \<Rightarrow> (error + crawl_state) option" where
  "crawl P d baseURL = crawlPage P d baseURL baseURL init"

section \<open>A concrete platform\<close>

text \<open>
  The platform of the examples: the URL parser above, the documents that the HTML
  parser builds for the listed HTML texts, and a site that answers the listed URLs,
  looked up by their serialised form, and is unreachable on every other one. On a
  text that is not listed the HTML parser of this platform throws, which is how the
  examples reach the \<^verbatim>\<open>catch\<close> branches of the extractors.
\<close>

definition web :: "(string \<times> node) list \<Rightarrow> (string \<times> response) list \<Rightarrow> platform" where
  "web docs site =
     \<lparr>URL_new = whatwg_URL,
      JSDOM_new = map_of docs,
      fetch = (\<lambda>u. case whatwg_URL u None of
                       None \<Rightarrow> Rejected ''Failed to parse URL''
                     | Some uo \<Rightarrow>
                         (case map_of site (href uo) of
                            None \<Rightarrow> Rejected ''fetch failed''
                          | Some res \<Rightarrow> Responded res))\<rparr>"

text \<open>A response with status 200 and an HTML content type, and the document of a body.\<close>

definition html_page :: "string \<Rightarrow> response" where
  "html_page b =
     \<lparr>status = 200, statusText = ''OK'',
      content_type = Some ''text/html; charset=utf-8'', body_text = Some b\<rparr>"

definition document :: "node list \<Rightarrow> node" where
  "document body = Element ''html'' [] [Element ''head'' [] [], Element ''body'' [] body]"

text \<open>
  The example site \<^verbatim>\<open>h.co\<close>. Its home page links to \<^verbatim>\<open>/b\<close>, to another host, to
  the empty reference and to itself; \<^verbatim>\<open>/b\<close> links back home, to itself with a slash,
  twice to \<^verbatim>\<open>/c\<close> with different queries, to \<^verbatim>\<open>/d\<close> and to \<^verbatim>\<open>/e\<close>. Of these,
  \<^verbatim>\<open>/c?x=1\<close> answers 404, \<^verbatim>\<open>/d\<close> is JSON and \<^verbatim>\<open>/e\<close> has no content type.
\<close>

definition anchor :: "string \<Rightarrow> node" where
  "anchor h = Element ''a'' [(''href'', h)] [Text ''x'']"

definition home_html :: string where
  "home_html = ''<a href=/b>x</a><a href=https://other.com/z>x</a><a href>x</a><a href=/>x</a>''"

definition b_html :: string where
  "b_html = ''<a href=/>x</a><a href=/b/>x</a><a href=/c?x=1>x</a><a href=/c?x=2>x</a><a href=/d>x</a><a href=/e>x</a>''"

definition example :: platform where
  "example =
     web [(home_html, document [anchor ''/b'', anchor ''https://other.com/z'', anchor [], anchor ''/'']),
          (b_html, document [anchor ''/'', anchor ''/b/'', anchor ''/c?x=1'', anchor ''/c?x=2'',
                             anchor ''/d'', anchor ''/e''])]
         [(''https://h.co/'', html_page home_html),
          (''https://h.co/b'', html_page b_html),
          (''https://h.co/c?x=1'',
             \<lparr>status = 404, statusText = ''Not Found'',
              content_type = Some ''text/html'', body_text = Some ''gone''\<rparr>),
          (''https://h.co/d'',
             \<lparr>status = 200, statusText = ''OK'',
              content_type = Some ''application/json'', body_text = Some ''{}''\<rparr>),
          (''https://h.co/e'',
             \<lparr>status = 200, statusText = ''OK'', content_type = None, body_text = Some ''e''\<rparr>)]"


section \<open>Notions used to state the properties\<close>

text \<open>
  \<open>first_in sel es e\<close>: in the list \<open>es\<close>, given in document order, \<open>e\<close> is the
  first element whose tag is \<open>sel\<close>.
\<close>

definition first_in :: "string \<Rightarrow> node list \<Rightarrow> node \<Rightarrow> bool" where
  "first_in sel es e \<longleftrightarrow>
     (\<exists>before after. es = before @ e # after \<and> tagName e = sel
        \<and> (\<forall>x \<in> set before. tagName x \<noteq> sel))"

text \<open>Documents for the first-paragraph rule.\<close>

definition p_of :: "string \<Rightarrow> node" where
  "p_of t = Element ''p'' [] [Text t]"

definition paragraphs :: platform where
  "paragraphs =
     web [(''<p>Outside paragraph.</p><main><p> Main paragraph. </p></main>'',
           document [p_of ''Outside paragraph.'', Element ''main'' [] [p_of '' Main paragraph. '']]),
          (''<main><h1>T</h1></main><p>After main.</p>'',
           document [Element ''main'' [] [Element ''h1'' [] [Text ''T'']], p_of ''After main.'']),
          (''<p>First.</p><p>Second.</p>'', document [p_of ''First.'', p_of ''Second.'']),
          (''<h1>Title</h1>'', document [Element ''h1'' [] [Text ''Title'']])] []"


text \<open>A document with an anchor and an image whose reference is the empty string.\<close>

definition empty_refs :: platform where
  "empty_refs =
     web [(''<a href>x</a><img src><a href=/one>y</a><img src=/i.png>'',
           document [Element ''a'' [(''href'', [])] [Text ''x''], Element ''img'' [(''src'', [])] [],
                     Element ''a'' [(''href'', ''/one'')] [Text ''y''],
                     Element ''img'' [(''src'', ''/i.png'')] []])] []"


text \<open>
  The crawl engine in terms of its transitions. \<open>in_scope\<close>: both URLs parse and have
  the same hostname. \<open>seen s k\<close>: the key has a positive count. \<open>revisited\<close> and
  \<open>marked\<close> are the states after the increment and after the first-visit marking with
  its fetch; \<open>page_links\<close> are the URLs the loop of a first visit runs over, none when
  \<^verbatim>\<open>getHTML\<close> throws or gives a falsy result.
\<close>

definition in_scope :: "platform \<Rightarrow> string \<Rightarrow> string \<Rightarrow> bool" where
  "in_scope P baseURL u \<longleftrightarrow>
     (\<exists>uo bo. URL_new P u None = Some uo \<and> URL_new P baseURL None = Some bo
        \<and> hostname uo = hostname bo)"

definition seen :: "crawl_state \<Rightarrow> string \<Rightarrow> bool" where
  "seen s k \<longleftrightarrow> (\<exists>n. pages s k = Some n \<and> 0 < n)"

definition revisited :: "crawl_state \<Rightarrow> string \<Rightarrow> int \<Rightarrow> crawl_state" where
  "revisited s k n =
     s\<lparr>pages := obj_set (pages s) k (js_inc n), trace := trace s @ [Visit k]\<rparr>"

definition marked :: "crawl_state \<Rightarrow> string \<Rightarrow> string \<Rightarrow> crawl_state" where
  "marked s k u = s\<lparr>pages := obj_set (pages s) k 1, trace := trace s @ [Visit k, Fetch u]\<rparr>"

definition page_links :: "platform \<Rightarrow> string \<Rightarrow> string \<Rightarrow> string list" where
  "page_links P baseURL u =
     (case getHTML P u of
        Inr (Some html) \<Rightarrow> if html = [] then [] else getURLsFromHTML P html baseURL
      | _ \<Rightarrow> [])"

text \<open>
  What a trace says about a key: the number of calls that passed the scope check with
  it, and the number of fetches of URLs that have it. A state is \<open>consistent\<close> when,
  for every key but \<^verbatim>\<open>__proto__\<close>, the count is the number of its visits, at most
  \<open>2^53\<close>, and absent if there is none, and the key has been fetched once if it was
  visited and never otherwise; and when under \<^verbatim>\<open>__proto__\<close> nothing is stored and
  every visit has fetched.
\<close>

definition visits :: "event list \<Rightarrow> string \<Rightarrow> nat" where
  "visits tr k = length (filter (\<lambda>e. e = Visit k) tr)"

definition fetches :: "platform \<Rightarrow> event list \<Rightarrow> string \<Rightarrow> nat" where
  "fetches P tr k =
     length (filter (\<lambda>e. case e of Fetch u \<Rightarrow> normalizeURL P u = Inr k | Visit _ \<Rightarrow> False) tr)"

definition consistent :: "platform \<Rightarrow> crawl_state \<Rightarrow> bool" where
  "consistent P s \<longleftrightarrow>
     (\<forall>k. if k = ''__proto__''
          then pages s k = None \<and> fetches P (trace s) k = visits (trace s) k
          else pages s k = (if visits (trace s) k = 0 then None
                            else Some (min (int (visits (trace s) k)) 9007199254740992))
             \<and> fetches P (trace s) k = (if visits (trace s) k = 0 then 0 else 1))"

text \<open>\<open>grows s s'\<close>: every positive count of \<open>s\<close> is still there in \<open>s'\<close>, not smaller.\<close>

definition grows :: "crawl_state \<Rightarrow> crawl_state \<Rightarrow> bool" where
  "grows s s' \<longleftrightarrow> (\<forall>k n. pages s k = Some n \<and> 0 < n \<longrightarrow> (\<exists>m. pages s' k = Some m \<and> n \<le> m))"

text \<open>
  The link graph of a site as seen from a base URL: an edge leads from an in-scope URL
  to each URL its page links to. The keys that a crawl can mark are those of the
  in-scope URLs reachable from the base.
\<close>

definition link_rel :: "platform \<Rightarrow> string \<Rightarrow> (string \<times> string) set" where
  "link_rel P baseURL = {(u, v). in_scope P baseURL u \<and> v \<in> set (page_links P baseURL u)}"

definition reachable :: "platform \<Rightarrow> string \<Rightarrow> string set" where
  "reachable P baseURL = (link_rel P baseURL)\<^sup>* `` {baseURL}"

definition reachable_keys :: "platform \<Rightarrow> string \<Rightarrow> string set" where
  "reachable_keys P baseURL =
     {k. \<exists>u \<in> reachable P baseURL. in_scope P baseURL u \<and> normalizeURL P u = Inr k}"

text \<open>The URLs that occur on the example site.\<close>

definition example_urls :: "string list" where
  "example_urls =
     [''https://h.co'', ''https://h.co/'', ''https://h.co/b'', ''https://h.co/b/'',
      ''https://h.co/c?x=1'', ''https://h.co/c?x=2'', ''https://h.co/d'', ''https://h.co/e'',
      ''https://other.com/z'']"

text \<open>
  Sites on a host named \<^verbatim>\<open>__proto__\<close>: one whose only page links to itself, and one
  whose home page and page \<^verbatim>\<open>/b\<close> link to each other. And a site whose home page
  arrives with status 200 and an HTML content type, but whose body cannot be read.
\<close>

definition proto_loop :: platform where
  "proto_loop =
     web [(''<a href=/>x</a>'', document [anchor ''/''])]
         [(''http://__proto__/'', html_page ''<a href=/>x</a>'')]"

definition proto_pair :: platform where
  "proto_pair =
     web [(''<a href=/b>x</a>'', document [anchor ''/b'']),
          (''<a href=/>x</a>'', document [anchor ''/''])]
         [(''http://__proto__/'', html_page ''<a href=/b>x</a>''),
          (''http://__proto__/b'', html_page ''<a href=/>x</a>'')]"

definition cut_body :: platform where
  "cut_body =
     web [] [(''https://h.co/'',
              \<lparr>status = 200, statusText = ''OK'',
               content_type = Some ''text/html'', body_text = None\<rparr>)]"

section \<open>Fetcher: the outcomes\<close>

lemma str_includes_iff: "str_includes s t \<longleftrightarrow> (\<exists>a b. s = a @ t @ b)"
proof (induction s)
  case Nil
  then show ?case by auto
next
  case (Cons c cs)
  have pre: "take (length t) (c # cs) = t \<longleftrightarrow> (\<exists>b. c # cs = t @ b)"
    by (metis append_eq_conv_conj)
  show ?case
  proof
    assume "str_includes (c # cs) t"
    then show "\<exists>a b. c # cs = a @ t @ b"
      using Cons pre by (metis append_Cons append_Nil str_includes.simps(2))
  next
    assume "\<exists>a b. c # cs = a @ t @ b"
    then obtain a b where ab: "c # cs = a @ t @ b" by blast
    show "str_includes (c # cs) t"
    proof (cases a)
      case Nil
      with ab have "\<exists>b. c # cs = t @ b" by auto
      with pre show ?thesis by simp
    next
      case (Cons x xs)
      with ab have "cs = xs @ t @ b" by simp
      then show ?thesis using Cons.IH by auto
    qed
  qed
qed

text \<open>
  Claim C8, as stated, fails: on the site whose home page arrives with status 200 and
  an HTML content type but with a body that cannot be read, \<^verbatim>\<open>fetch\<close> does not fail,
  and \<^verbatim>\<open>getHTML\<close> throws.
\<close>

theorem getHTML_body_counterexample:
  "fetch cut_body ''https://h.co'' =
     Responded \<lparr>status = 200, statusText = ''OK'',
                content_type = Some ''text/html'', body_text = None\<rparr>
   \<and> getHTML cut_body ''https://h.co'' = Inl BodyError"
  by code_simp

text \<open>
  Claim C8, amended. \<^verbatim>\<open>getHTML\<close> throws in two cases and no other: when \<^verbatim>\<open>fetch\<close>
  rejects, and then the network error with the message of the rejection, and when the
  response has a status below 400 and a content type in which \<^verbatim>\<open>text/html\<close> occurs
  and its body cannot be read, and then the error of the read. On a response with a
  status of 400 or more, with no content type, or with one in which \<^verbatim>\<open>text/html\<close>
  does not occur, it returns \<^verbatim>\<open>undefined\<close>, whatever the body. It returns a body
  exactly when the response has a status below 400, a content type in which
  \<^verbatim>\<open>text/html\<close> occurs and a body that can be read, which is the one returned.
\<close>

theorem getHTML_outcomes:
  "(\<forall>e. getHTML P u = Inl e \<longleftrightarrow>
          (\<exists>msg. fetch P u = Rejected msg \<and> e = NetworkError (''Got Network error: '' @ msg))
        \<or> (\<exists>res ct a b. fetch P u = Responded res \<and> status res < 400
               \<and> content_type res = Some ct \<and> ct = a @ ''text/html'' @ b
               \<and> body_text res = None \<and> e = BodyError))
   \<and> (\<forall>res. fetch P u = Responded res \<longrightarrow>
          (400 \<le> status res \<longrightarrow> getHTML P u = Inr None)
        \<and> (content_type res = None \<longrightarrow> getHTML P u = Inr None)
        \<and> (\<forall>ct. content_type res = Some ct \<and> \<not> (\<exists>a b. ct = a @ ''text/html'' @ b)
                \<longrightarrow> getHTML P u = Inr None))
   \<and> (\<forall>body. getHTML P u = Inr (Some body) \<longleftrightarrow>
          (\<exists>res ct a b. fetch P u = Responded res \<and> status res < 400
             \<and> content_type res = Some ct \<and> ct = a @ ''text/html'' @ b
             \<and> body_text res = Some body))"
proof -
  have emp: "\<not> str_includes [] ''text/html''" by simp
  show ?thesis
  proof (cases "fetch P u")
    case (Rejected msg)
    then show ?thesis by (auto simp: getHTML_def)
  next
    case (Responded res)
    show ?thesis
    proof (cases "content_type res")
      case None
      with Responded show ?thesis by (auto simp: getHTML_def)
    next
      case (Some ct)
      show ?thesis
      proof (cases "body_text res")
        case None
        with Responded Some emp show ?thesis by (auto simp: getHTML_def str_includes_iff)
      next
        case body: (Some body)
        with Responded Some emp show ?thesis by (auto simp: getHTML_def str_includes_iff)
      qed
    qed
  qed
qed

theorem getHTML_outcomes_witness:
  "fetch example ''https://h.co/zz'' = Rejected ''fetch failed''
   \<and> getHTML example ''https://h.co/zz'' = Inl (NetworkError ''Got Network error: fetch failed'')
   \<and> (\<exists>res. fetch cut_body ''https://h.co'' = Responded res \<and> status res < 400
          \<and> content_type res = Some ([] @ ''text/html'' @ []) \<and> body_text res = None)
   \<and> getHTML cut_body ''https://h.co'' = Inl BodyError
   \<and> (\<exists>res. fetch example ''https://h.co/c?x=1'' = Responded res \<and> 400 \<le> status res)
   \<and> getHTML example ''https://h.co/c?x=1'' = Inr None
   \<and> (\<exists>res. fetch example ''https://h.co/e'' = Responded res \<and> content_type res = None)
   \<and> getHTML example ''https://h.co/e'' = Inr None
   \<and> (\<exists>res. fetch example ''https://h.co/d'' = Responded res
          \<and> content_type res = Some ''application/json'')
   \<and> getHTML example ''https://h.co/d'' = Inr None
   \<and> (\<exists>res. fetch example ''https://h.co/b'' = Responded res \<and> status res < 400
          \<and> content_type res = Some ([] @ ''text/html'' @ ''; charset=utf-8'')
          \<and> body_text res = Some b_html)
   \<and> getHTML example ''https://h.co/b'' = Inr (Some b_html)"
proof -
  have zz: "fetch example ''https://h.co/zz'' = Rejected ''fetch failed''"
    by code_simp
  have cut: "fetch cut_body ''https://h.co'' =
             Responded \<lparr>status = 200, statusText = ''OK'',
                        content_type = Some ''text/html'', body_text = None\<rparr>"
    by code_simp
  have c: "fetch example ''https://h.co/c?x=1'' =
             Responded \<lparr>status = 404, statusText = ''Not Found'',
                        content_type = Some ''text/html'', body_text = Some ''gone''\<rparr>"
    by code_simp
  have e: "fetch example ''https://h.co/e'' =
             Responded \<lparr>status = 200, statusText = ''OK'', content_type = None,
                        body_text = Some ''e''\<rparr>"
    by code_simp
  have d: "fetch example ''https://h.co/d'' =
             Responded \<lparr>status = 200, statusText = ''OK'',
                        content_type = Some ''application/json'', body_text = Some ''{}''\<rparr>"
    by code_simp
  have b: "fetch example ''https://h.co/b'' = Responded (html_page b_html)"
    by code_simp
  have json: "\<not> (\<exists>x y. ''application/json'' = x @ ''text/html'' @ y)"
    unfolding str_includes_iff [symmetric] by code_simp
  have 1: "getHTML example ''https://h.co/zz'' = Inl (NetworkError ''Got Network error: fetch failed'')"
    using getHTML_outcomes [of example "''https://h.co/zz''"] zz by simp
  have "\<exists>res ct x y. fetch cut_body ''https://h.co'' = Responded res \<and> status res < 400
          \<and> content_type res = Some ct \<and> ct = x @ ''text/html'' @ y
          \<and> body_text res = None \<and> BodyError = BodyError"
    unfolding cut by simp (rule exI [of _ "[]"], simp)
  then have 0: "getHTML cut_body ''https://h.co'' = Inl BodyError"
    using getHTML_outcomes [of cut_body "''https://h.co''"] by blast
  have 2: "getHTML example ''https://h.co/c?x=1'' = Inr None"
    using getHTML_outcomes [of example "''https://h.co/c?x=1''"] c by simp
  have 3: "getHTML example ''https://h.co/e'' = Inr None"
    using getHTML_outcomes [of example "''https://h.co/e''"] e by simp
  have 4: "getHTML example ''https://h.co/d'' = Inr None"
    using getHTML_outcomes [of example "''https://h.co/d''"] d json by simp
  have "\<exists>res ct x y. fetch example ''https://h.co/b'' = Responded res \<and> status res < 400
          \<and> content_type res = Some ct \<and> ct = x @ ''text/html'' @ y
          \<and> body_text res = Some b_html"
    unfolding b by (simp add: html_page_def) (rule exI [of _ "[]"], simp)
  then have 5: "getHTML example ''https://h.co/b'' = Inr (Some b_html)"
    using getHTML_outcomes [of example "''https://h.co/b''"] by blast
  show ?thesis
    using zz cut c e d b 0 1 2 3 4 5 by (simp add: html_page_def)
qed

section \<open>URL normalizer: the key\<close>

text \<open>The inputs of the repository's tests, on the URL parser above.\<close>

lemma normalizeURL_tests:
  "normalizeURL (web [] []) ''https://blog.boot.dev/path'' = Inr ''blog.boot.dev/path''"
  "normalizeURL (web [] []) ''https://blog.boot.dev/path/'' = Inr ''blog.boot.dev/path''"
  "normalizeURL (web [] []) ''https://BLOG.boot.dev/path'' = Inr ''blog.boot.dev/path''"
  "normalizeURL (web [] []) ''http://BLOG.boot.dev/path'' = Inr ''blog.boot.dev/path''"
  by code_simp+

lemma resolution_tests:
  "map_option href (whatwg_URL ''https://blog.boot.dev'' (Some ''https://blog.boot.dev''))
     = Some ''https://blog.boot.dev/''"
  "map_option href (whatwg_URL ''/path/one'' (Some ''https://blog.boot.dev''))
     = Some ''https://blog.boot.dev/path/one''"
  "map_option href (whatwg_URL ''https://other.com/path/one'' (Some ''https://blog.boot.dev''))
     = Some ''https://other.com/path/one''"
  "map_option href (whatwg_URL ''/logo.png'' (Some ''https://blog.boot.dev''))
     = Some ''https://blog.boot.dev/logo.png''"
  "map_option href (whatwg_URL ''https://cdn.boot.dev/banner.jpg'' (Some ''https://blog.boot.dev''))
     = Some ''https://cdn.boot.dev/banner.jpg''"
  by code_simp+

text \<open>
  Claim C6. \<^verbatim>\<open>normalizeURL\<close> maps \<^verbatim>\<open>https://h.co/p\<close>, \<^verbatim>\<open>https://h.co/p/\<close>,
  \<^verbatim>\<open>https://H.CO/p\<close> and \<^verbatim>\<open>http://h.co/p\<close> to \<^verbatim>\<open>h.co/p\<close>. The case of the path
  is kept and of two trailing slashes one remains. In general the key is host and
  pathname of the parsed URL, concatenated, less one trailing slash if there is one.
\<close>

theorem normalizeURL_spec:
  "normalizeURL (web [] []) ''https://h.co/p'' = Inr ''h.co/p''
   \<and> normalizeURL (web [] []) ''https://h.co/p/'' = Inr ''h.co/p''
   \<and> normalizeURL (web [] []) ''https://H.CO/p'' = Inr ''h.co/p''
   \<and> normalizeURL (web [] []) ''http://h.co/p'' = Inr ''h.co/p''
   \<and> normalizeURL (web [] []) ''https://H.CO/P'' = Inr ''h.co/P''
   \<and> normalizeURL (web [] []) ''https://h.co/p//'' = Inr ''h.co/p/''
   \<and> (\<forall>uo. URL_new P u None = Some uo \<longrightarrow>
        (\<exists>k. normalizeURL P u = Inr k
           \<and> (host uo @ pathname uo = k @ ''/''
               \<or> host uo @ pathname uo = k \<and> (k = [] \<or> last k \<noteq> CHR ''/''))))"
proof -
  have 1: "normalizeURL (web [] []) ''https://h.co/p'' = Inr ''h.co/p''" by code_simp
  have 2: "normalizeURL (web [] []) ''https://h.co/p/'' = Inr ''h.co/p''" by code_simp
  have 3: "normalizeURL (web [] []) ''https://H.CO/p'' = Inr ''h.co/p''" by code_simp
  have 4: "normalizeURL (web [] []) ''http://h.co/p'' = Inr ''h.co/p''" by code_simp
  have 5: "normalizeURL (web [] []) ''https://H.CO/P'' = Inr ''h.co/P''" by code_simp
  have 6: "normalizeURL (web [] []) ''https://h.co/p//'' = Inr ''h.co/p/''" by code_simp
  have 7: "\<exists>k. normalizeURL P u = Inr k
           \<and> (host uo @ pathname uo = k @ ''/''
               \<or> host uo @ pathname uo = k \<and> (k = [] \<or> last k \<noteq> CHR ''/''))"
    if "URL_new P u None = Some uo" for uo
  proof (cases "host uo @ pathname uo \<noteq> [] \<and> last (host uo @ pathname uo) = CHR ''/''")
    case True
    then have "host uo @ pathname uo = butlast (host uo @ pathname uo) @ ''/''"
      by (metis append_butlast_last_id)
    with True that show ?thesis by (simp add: normalizeURL_def Let_def)
  next
    case False
    with that show ?thesis by (auto simp: normalizeURL_def Let_def)
  qed
  from 1 2 3 4 5 6 7 show ?thesis by blast
qed

theorem normalizeURL_spec_witness:
  "URL_new (web [] []) ''https://h.co/p/'' None =
     Some \<lparr>href = ''https://h.co/p/'', host = ''h.co'', hostname = ''h.co'',
           pathname = ''/p/'', search = [], hash = []\<rparr>
   \<and> (\<exists>k. normalizeURL (web [] []) ''https://h.co/p/'' = Inr k \<and> ''h.co/p/'' = k @ ''/'')"
proof -
  have p: "URL_new (web [] []) ''https://h.co/p/'' None =
     Some \<lparr>href = ''https://h.co/p/'', host = ''h.co'', hostname = ''h.co'',
           pathname = ''/p/'', search = [], hash = []\<rparr>"
    by code_simp
  with normalizeURL_spec [of "web [] []" "''https://h.co/p/''"]
  obtain k where "normalizeURL (web [] []) ''https://h.co/p/'' = Inr k"
    "''h.co/p/'' = k @ ''/'' \<or> ''h.co/p/'' = k \<and> (k = [] \<or> last k \<noteq> CHR ''/'')"
    by auto
  then have "normalizeURL (web [] []) ''https://h.co/p/'' = Inr k \<and> ''h.co/p/'' = k @ ''/''"
    by auto
  with p show ?thesis by blast
qed


text \<open>
  Claim C7, as stated, fails: the query string and the fragment of a URL are not in its
  key, and two URLs that differ in the query only have the same key.
\<close>

theorem normalizeURL_query_counterexample:
  "URL_new (web [] []) ''https://h.co/p?x=1#top'' None =
     Some \<lparr>href = ''https://h.co/p?x=1#top'', host = ''h.co'', hostname = ''h.co'',
           pathname = ''/p'', search = ''?x=1'', hash = ''#top''\<rparr>
   \<and> normalizeURL (web [] []) ''https://h.co/p?x=1#top'' = Inr ''h.co/p''
   \<and> normalizeURL (web [] []) ''https://h.co/p?x=2'' = Inr ''h.co/p''"
  by code_simp


text \<open>
  Claim C7, amended. The key is made of host and pathname only: two URLs whose parsed
  forms differ in query and fragment only, and hence in the serialised form, have the
  same key.
\<close>

theorem normalizeURL_ignores_query_fragment:
  assumes "URL_new P u None = Some uo"
    and "URL_new P u' None = Some (uo\<lparr>href := h, search := q, hash := f\<rparr>)"
  shows "normalizeURL P u' = normalizeURL P u"
  using assms by (simp add: normalizeURL_def)

theorem normalizeURL_ignores_query_fragment_witness:
  "URL_new (web [] []) ''https://h.co/p?x=1'' None =
     Some \<lparr>href = ''https://h.co/p?x=1'', host = ''h.co'', hostname = ''h.co'',
           pathname = ''/p'', search = ''?x=1'', hash = []\<rparr>
   \<and> URL_new (web [] []) ''https://h.co/p?x=2#f'' None =
     Some \<lparr>href = ''https://h.co/p?x=2#f'', host = ''h.co'', hostname = ''h.co'',
           pathname = ''/p'', search = ''?x=2'', hash = ''#f''\<rparr>
   \<and> normalizeURL (web [] []) ''https://h.co/p?x=2#f'' = normalizeURL (web [] []) ''https://h.co/p?x=1''"
proof -
  let ?uo = "\<lparr>href = ''https://h.co/p?x=1'', host = ''h.co'', hostname = ''h.co'',
           pathname = ''/p'', search = ''?x=1'', hash = []\<rparr>"
  have 1: "URL_new (web [] []) ''https://h.co/p?x=1'' None = Some ?uo"
    by code_simp
  have 2: "URL_new (web [] []) ''https://h.co/p?x=2#f'' None =
            Some (?uo\<lparr>href := ''https://h.co/p?x=2#f'', search := ''?x=2'', hash := ''#f''\<rparr>)"
    by code_simp
  from normalizeURL_ignores_query_fragment [OF 1 2] 1 2 show ?thesis by simp
qed



section \<open>Page extractor: the first paragraph\<close>

lemma descendants_in_elements:
  "m \<in> set (elements doc) \<Longrightarrow> set (descendants m) \<subseteq> set (elements doc)"
proof (induction doc)
  case (Element tag attrs cs)
  show ?case
  proof (cases "m = Element tag attrs cs")
    case True
    then show ?thesis by auto
  next
    case False
    with Element.prems obtain c where c: "c \<in> set cs" "m \<in> set (elements c)" by auto
    with Element.IH have "set (descendants m) \<subseteq> set (elements c)" by blast
    with c show ?thesis by auto
  qed
next
  case (Text t)
  then show ?case by simp
qed

lemma first_match_Some: "first_match sel es = Some e \<longleftrightarrow> first_in sel es e"
proof
  assume "first_match sel es = Some e"
  then obtain r where "filter (\<lambda>e. tagName e = sel) es = e # r"
    by (auto simp: first_match_def split: list.splits)
  then show "first_in sel es e"
    unfolding first_in_def
    by (metis (mono_tags, lifting) filter_eq_Cons_iff)
next
  assume "first_in sel es e"
  then obtain before after where "es = before @ e # after" "tagName e = sel"
     "\<forall>x \<in> set before. tagName x \<noteq> sel"
    unfolding first_in_def by blast
  then have "filter (\<lambda>e. tagName e = sel) es = e # filter (\<lambda>e. tagName e = sel) after"
    by simp
  then show "first_match sel es = Some e" by (simp add: first_match_def)
qed

lemma first_match_None: "first_match sel es = None \<longleftrightarrow> (\<forall>x \<in> set es. tagName x \<noteq> sel)"
proof -
  have "first_match sel es = None \<longleftrightarrow> filter (\<lambda>e. tagName e = sel) es = []"
    by (simp add: first_match_def split: list.splits)
  then show ?thesis by (simp add: filter_empty_conv)
qed


text \<open>
  Claim C3. If the HTML parser throws, the first paragraph is empty. Otherwise, with
  \<^verbatim>\<open>main\<close> the first \<^verbatim>\<open>main\<close> element of the document: if it exists and has a
  \<^verbatim>\<open>p\<close> descendant, the result is the trimmed text of the first of them; if there is
  no \<^verbatim>\<open>main\<close> or it has no \<^verbatim>\<open>p\<close> descendant, the result is the trimmed text of the
  first \<^verbatim>\<open>p\<close> of the document; without any \<^verbatim>\<open>p\<close> the result is empty.
\<close>

theorem getFirstParagraph_rule:
  "(JSDOM_new P html = None \<longrightarrow> getFirstParagraphFromHTML P html = [])
   \<and> (\<forall>doc. JSDOM_new P html = Some doc \<longrightarrow>
        (\<forall>m p. first_in ''main'' (elements doc) m \<and> first_in ''p'' (descendants m) p
            \<longrightarrow> getFirstParagraphFromHTML P html = trim (textContent p))
      \<and> (\<forall>p. ((\<forall>x \<in> set (elements doc). tagName x \<noteq> ''main'')
               \<or> (\<exists>m. first_in ''main'' (elements doc) m
                     \<and> (\<forall>x \<in> set (descendants m). tagName x \<noteq> ''p'')))
              \<and> first_in ''p'' (elements doc) p
            \<longrightarrow> getFirstParagraphFromHTML P html = trim (textContent p))
      \<and> ((\<forall>x \<in> set (elements doc). tagName x \<noteq> ''p'')
            \<longrightarrow> getFirstParagraphFromHTML P html = []))"
proof -
  have a: "getFirstParagraphFromHTML P html = trim (textContent p)"
    if "JSDOM_new P html = Some doc" "first_in ''main'' (elements doc) m"
       "first_in ''p'' (descendants m) p" for doc m p
    using that
    by (simp add: getFirstParagraphFromHTML_def doc_querySelector_def querySelector_def
        first_match_Some [symmetric])
  have b1: "getFirstParagraphFromHTML P html = trim (textContent p)"
    if "JSDOM_new P html = Some doc" "\<forall>x \<in> set (elements doc). tagName x \<noteq> ''main''"
       "first_in ''p'' (elements doc) p" for doc p
    using that
    by (simp add: getFirstParagraphFromHTML_def doc_querySelector_def querySelector_def
        first_match_Some [symmetric] first_match_None [symmetric])
  have b2: "getFirstParagraphFromHTML P html = trim (textContent p)"
    if "JSDOM_new P html = Some doc" "first_in ''main'' (elements doc) m"
      "\<forall>x \<in> set (descendants m). tagName x \<noteq> ''p''"
       "first_in ''p'' (elements doc) p" for doc m p
    using that
    by (simp add: getFirstParagraphFromHTML_def doc_querySelector_def querySelector_def
        first_match_Some [symmetric] first_match_None [symmetric])
  have c: "getFirstParagraphFromHTML P html = []"
    if doc: "JSDOM_new P html = Some doc" and no: "\<forall>x \<in> set (elements doc). tagName x \<noteq> ''p''" for doc
  proof -
    have nop: "first_match ''p'' (elements doc) = None" using no by (simp add: first_match_None)
    have "first_match ''p'' (descendants m) = None" if "first_match ''main'' (elements doc) = Some m" for m
    proof -
      from that have "m \<in> set (elements doc)"
        by (auto simp: first_match_Some first_in_def)
      with descendants_in_elements no show ?thesis unfolding first_match_None by blast
    qed
    with nop doc show ?thesis
      by (auto simp: getFirstParagraphFromHTML_def doc_querySelector_def querySelector_def trim_def
          split: option.splits)
  qed
  show ?thesis
    using a b1 b2 c by (auto simp: getFirstParagraphFromHTML_def)
qed


theorem getFirstParagraph_rule_witness:
  "getFirstParagraphFromHTML paragraphs ''<p>Outside paragraph.</p><main><p> Main paragraph. </p></main>''
     = ''Main paragraph.''
   \<and> getFirstParagraphFromHTML paragraphs ''<main><h1>T</h1></main><p>After main.</p>'' = ''After main.''
   \<and> getFirstParagraphFromHTML paragraphs ''<p>First.</p><p>Second.</p>'' = ''First.''
   \<and> getFirstParagraphFromHTML paragraphs ''<h1>Title</h1>'' = []
   \<and> JSDOM_new paragraphs ''<p>'' = None \<and> getFirstParagraphFromHTML paragraphs ''<p>'' = []"
proof -
  let ?h1 = "''<p>Outside paragraph.</p><main><p> Main paragraph. </p></main>''"
  let ?d1 = "document [p_of ''Outside paragraph.'', Element ''main'' [] [p_of '' Main paragraph. '']]"
  let ?h2 = "''<main><h1>T</h1></main><p>After main.</p>''"
  let ?d2 = "document [Element ''main'' [] [Element ''h1'' [] [Text ''T'']], p_of ''After main.'']"
  let ?h3 = "''<p>First.</p><p>Second.</p>''"
  let ?d3 = "document [p_of ''First.'', p_of ''Second.'']"
  let ?h4 = "''<h1>Title</h1>''"
  let ?d4 = "document [Element ''h1'' [] [Text ''Title'']]"
  have d1: "JSDOM_new paragraphs ?h1 = Some ?d1" by code_simp
  have m1: "first_in ''main'' (elements ?d1) (Element ''main'' [] [p_of '' Main paragraph. ''])"
    unfolding first_match_Some [symmetric] by code_simp
  have p1: "first_in ''p'' (descendants (Element ''main'' [] [p_of '' Main paragraph. '']))
              (p_of '' Main paragraph. '')"
    unfolding first_match_Some [symmetric] by code_simp
  have t1: "trim (textContent (p_of '' Main paragraph. '')) = ''Main paragraph.''" by code_simp
  have r1: "getFirstParagraphFromHTML paragraphs ?h1 = ''Main paragraph.''"
    using getFirstParagraph_rule [of paragraphs ?h1, THEN conjunct2, rule_format, OF d1,
        THEN conjunct1, rule_format, OF conjI [OF m1 p1]] t1 by simp
  have d2: "JSDOM_new paragraphs ?h2 = Some ?d2" by code_simp
  have m2: "first_in ''main'' (elements ?d2) (Element ''main'' [] [Element ''h1'' [] [Text ''T'']])"
    unfolding first_match_Some [symmetric] by code_simp
  have n2: "\<forall>x \<in> set (descendants (Element ''main'' [] [Element ''h1'' [] [Text ''T'']])). tagName x \<noteq> ''p''"
    unfolding first_match_None [symmetric] by code_simp
  have p2: "first_in ''p'' (elements ?d2) (p_of ''After main.'')"
    unfolding first_match_Some [symmetric] by code_simp
  have t2: "trim (textContent (p_of ''After main.'')) = ''After main.''" by code_simp
  have r2: "getFirstParagraphFromHTML paragraphs ?h2 = ''After main.''"
  proof -
    from m2 n2 p2
    have "((\<forall>x \<in> set (elements ?d2). tagName x \<noteq> ''main'')
            \<or> (\<exists>m. first_in ''main'' (elements ?d2) m
                  \<and> (\<forall>x \<in> set (descendants m). tagName x \<noteq> ''p'')))
          \<and> first_in ''p'' (elements ?d2) (p_of ''After main.'')"
      by blast
    from getFirstParagraph_rule [of paragraphs ?h2, THEN conjunct2, rule_format, OF d2,
        THEN conjunct2, THEN conjunct1, rule_format, OF this] t2
    show ?thesis by simp
  qed
  have d3: "JSDOM_new paragraphs ?h3 = Some ?d3" by code_simp
  have n3: "\<forall>x \<in> set (elements ?d3). tagName x \<noteq> ''main''"
    unfolding first_match_None [symmetric] by code_simp
  have p3: "first_in ''p'' (elements ?d3) (p_of ''First.'')"
    unfolding first_match_Some [symmetric] by code_simp
  have t3: "trim (textContent (p_of ''First.'')) = ''First.''" by code_simp
  have r3: "getFirstParagraphFromHTML paragraphs ?h3 = ''First.''"
    using getFirstParagraph_rule [of paragraphs ?h3, THEN conjunct2, rule_format, OF d3,
        THEN conjunct2, THEN conjunct1, rule_format, OF conjI [OF disjI1 [OF n3] p3]] t3 by simp
  have d4: "JSDOM_new paragraphs ?h4 = Some ?d4" by code_simp
  have n4: "\<forall>x \<in> set (elements ?d4). tagName x \<noteq> ''p''"
    unfolding first_match_None [symmetric] by code_simp
  have r4: "getFirstParagraphFromHTML paragraphs ?h4 = []"
    by (rule getFirstParagraph_rule [of paragraphs ?h4, THEN conjunct2, rule_format, OF d4,
        THEN conjunct2, THEN conjunct2, THEN mp, OF n4])
  have d5: "JSDOM_new paragraphs ''<p>'' = None" by code_simp
  have r5: "getFirstParagraphFromHTML paragraphs ''<p>'' = []"
    by (rule getFirstParagraph_rule [of paragraphs "''<p>''", THEN conjunct1, rule_format, OF d5])
  from r1 r2 r3 r4 d5 r5 show ?thesis by blast
qed


section \<open>Page extractor: links and images\<close>

lemma forEach_push_map_filter:
  "forEach_push P attr baseURL els urls =
     urls @ map (\<lambda>e. href (the (URL_new P (the (getAttribute e attr)) (Some baseURL))))
              (filter (\<lambda>e. \<exists>v. getAttribute e attr = Some v \<and> v \<noteq> []
                                \<and> URL_new P v (Some baseURL) \<noteq> None) els)"
  by (induction els arbitrary: urls) (auto split: option.splits)

lemma forEach_push_skip_empty:
  "forEach_push P attr baseURL (filter (\<lambda>e. getAttribute e attr \<noteq> Some []) els) urls =
     forEach_push P attr baseURL els urls"
  by (induction els arbitrary: urls) (auto split: option.splits)


text \<open>
  Claim C5, as stated, fails: an anchor and an image that have the attribute, with the
  empty string as its value, which resolves against the base, are not in the results.
\<close>

theorem extraction_counterexample:
  "getAttribute (Element ''a'' [(''href'', [])] [Text ''x'']) ''href'' = Some []
   \<and> URL_new empty_refs [] (Some ''https://blog.boot.dev'') =
       Some \<lparr>href = ''https://blog.boot.dev/'', host = ''blog.boot.dev'', hostname = ''blog.boot.dev'',
             pathname = ''/'', search = [], hash = []\<rparr>
   \<and> getURLsFromHTML empty_refs ''<a href>x</a><img src><a href=/one>y</a><img src=/i.png>''
         ''https://blog.boot.dev'' = [''https://blog.boot.dev/one'']
   \<and> getImagesFromHTML empty_refs ''<a href>x</a><img src><a href=/one>y</a><img src=/i.png>''
         ''https://blog.boot.dev'' = [''https://blog.boot.dev/i.png'']"
  by code_simp


text \<open>
  Claim C5, amended. The links are the \<^verbatim>\<open>href\<close> values of the \<^verbatim>\<open>a\<close> elements, and
  the images the \<^verbatim>\<open>src\<close> values of the \<^verbatim>\<open>img\<close> elements, in document order, each
  resolved against the base; the elements without the attribute, with the empty string
  as its value, or with a value that does not resolve are left out, and the order of
  the others is kept.
\<close>

theorem extraction_in_order:
  assumes "JSDOM_new P html = Some doc"
  shows "getURLsFromHTML P html baseURL =
           map (\<lambda>e. href (the (URL_new P (the (getAttribute e ''href'')) (Some baseURL))))
             (filter (\<lambda>e. \<exists>v. getAttribute e ''href'' = Some v \<and> v \<noteq> []
                               \<and> URL_new P v (Some baseURL) \<noteq> None)
                (filter (\<lambda>e. tagName e = ''a'') (elements doc)))
       \<and> getImagesFromHTML P html baseURL =
           map (\<lambda>e. href (the (URL_new P (the (getAttribute e ''src'')) (Some baseURL))))
             (filter (\<lambda>e. \<exists>v. getAttribute e ''src'' = Some v \<and> v \<noteq> []
                               \<and> URL_new P v (Some baseURL) \<noteq> None)
                (filter (\<lambda>e. tagName e = ''img'') (elements doc)))"
  using assms
  by (simp add: getURLsFromHTML_def getImagesFromHTML_def doc_querySelectorAll_def
      forEach_push_map_filter)

theorem extraction_in_order_witness:
  "JSDOM_new empty_refs ''<a href>x</a><img src><a href=/one>y</a><img src=/i.png>'' =
     Some (document [Element ''a'' [(''href'', [])] [Text ''x''], Element ''img'' [(''src'', [])] [],
                     Element ''a'' [(''href'', ''/one'')] [Text ''y''],
                     Element ''img'' [(''src'', ''/i.png'')] []])
   \<and> getURLsFromHTML empty_refs ''<a href>x</a><img src><a href=/one>y</a><img src=/i.png>''
         ''https://blog.boot.dev'' = [''https://blog.boot.dev/one'']
   \<and> getImagesFromHTML empty_refs ''<a href>x</a><img src><a href=/one>y</a><img src=/i.png>''
         ''https://blog.boot.dev'' = [''https://blog.boot.dev/i.png'']"
proof -
  let ?h = "''<a href>x</a><img src><a href=/one>y</a><img src=/i.png>''"
  let ?d = "document [Element ''a'' [(''href'', [])] [Text ''x''], Element ''img'' [(''src'', [])] [],
                     Element ''a'' [(''href'', ''/one'')] [Text ''y''],
                     Element ''img'' [(''src'', ''/i.png'')] []]"
  have d: "JSDOM_new empty_refs ?h = Some ?d" by code_simp
  have one: "URL_new empty_refs ''/one'' (Some ''https://blog.boot.dev'') =
       Some \<lparr>href = ''https://blog.boot.dev/one'', host = ''blog.boot.dev'',
             hostname = ''blog.boot.dev'', pathname = ''/one'', search = [], hash = []\<rparr>"
    by code_simp
  have png: "URL_new empty_refs ''/i.png'' (Some ''https://blog.boot.dev'') =
       Some \<lparr>href = ''https://blog.boot.dev/i.png'', host = ''blog.boot.dev'',
             hostname = ''blog.boot.dev'', pathname = ''/i.png'', search = [], hash = []\<rparr>"
    by code_simp
  from extraction_in_order [OF d, of "''https://blog.boot.dev''"] d one png
  show ?thesis by (simp add: document_def)
qed


text \<open>
  Claim C10. The elements whose \<^verbatim>\<open>href\<close> (for images, \<^verbatim>\<open>src\<close>) is the empty string
  contribute nothing: the results are those of the document without these elements.
  On the example site the empty reference resolves to the home page, and the third
  anchor of the home page, which has it, gives no link.
\<close>

theorem empty_reference_excluded:
  "getURLsFromHTML P html baseURL =
     (case JSDOM_new P html of
        None \<Rightarrow> []
      | Some doc \<Rightarrow>
          forEach_push P ''href'' baseURL
            (filter (\<lambda>e. getAttribute e ''href'' \<noteq> Some []) (doc_querySelectorAll doc ''a'')) [])
   \<and> getImagesFromHTML P html baseURL =
     (case JSDOM_new P html of
        None \<Rightarrow> []
      | Some doc \<Rightarrow>
          forEach_push P ''src'' baseURL
            (filter (\<lambda>e. getAttribute e ''src'' \<noteq> Some []) (doc_querySelectorAll doc ''img'')) [])
   \<and> URL_new example [] (Some ''https://h.co'') =
       Some \<lparr>href = ''https://h.co/'', host = ''h.co'', hostname = ''h.co'',
             pathname = ''/'', search = [], hash = []\<rparr>
   \<and> JSDOM_new example home_html =
       Some (document [anchor ''/b'', anchor ''https://other.com/z'', anchor [], anchor ''/''])
   \<and> getURLsFromHTML example home_html ''https://h.co'' =
       [''https://h.co/b'', ''https://other.com/z'', ''https://h.co/'']"
proof -
  have 1: "URL_new example [] (Some ''https://h.co'') =
       Some \<lparr>href = ''https://h.co/'', host = ''h.co'', hostname = ''h.co'',
             pathname = ''/'', search = [], hash = []\<rparr>"
    by code_simp
  have 2: "JSDOM_new example home_html =
       Some (document [anchor ''/b'', anchor ''https://other.com/z'', anchor [], anchor ''/''])"
    by code_simp
  have 3: "getURLsFromHTML example home_html ''https://h.co'' =
       [''https://h.co/b'', ''https://other.com/z'', ''https://h.co/'']"
    by code_simp
  show ?thesis
    unfolding forEach_push_skip_empty using 1 2 3
    by (simp add: getURLsFromHTML_def getImagesFromHTML_def)
qed


section \<open>Crawl engine: the transitions of one call\<close>

lemma normalizeURL_parsed:
  "URL_new P u None = Some uo \<Longrightarrow> \<exists>k. normalizeURL P u = Inr k"
  by (simp add: normalizeURL_def Let_def)

lemma crawlPage_skip:
  assumes "URL_new P cur None = Some c" "URL_new P base None = Some b" "hostname c \<noteq> hostname b"
  shows "crawlPage P (Suc d) base cur s = Some (Inr s)"
  using assms by simp

lemma crawlPage_revisit:
  assumes "in_scope P base cur" "normalizeURL P cur = Inr k" "pages s k = Some n" "0 < n"
  shows "crawlPage P (Suc d) base cur s = Some (Inr (revisited s k n))"
  using assms by (auto simp: in_scope_def revisited_def)

lemma crawlPage_first:
  assumes "in_scope P base cur" "normalizeURL P cur = Inr k" "\<not> seen s k"
  shows "crawlPage P (Suc d) base cur s =
           crawl_links P d base (page_links P base cur) (marked s k cur)"
proof -
  from assms(3) have "(case pages s k of None \<Rightarrow> None | Some n \<Rightarrow> if 0 < n then Some n else None) = None"
    by (auto simp: seen_def split: option.splits)
  with assms(1,2) show ?thesis
    by (auto simp: in_scope_def marked_def page_links_def Let_def split: sum.splits option.splits)
qed

lemma crawlPage_throws:
  assumes "URL_new P cur None = None \<or> URL_new P base None = None"
  shows "crawlPage P (Suc d) base cur s = Some (Inl TypeError)"
  using assms by (auto split: option.splits)

lemma crawlPage_Suc_cases [consumes 1, case_names throws skip revisit first]:
  assumes "crawlPage P (Suc d) base cur s = r"
  obtains (throws) "URL_new P cur None = None \<or> URL_new P base None = None"
      "r = Some (Inl TypeError)"
  | (skip) c b where "URL_new P cur None = Some c" "URL_new P base None = Some b"
      "hostname c \<noteq> hostname b" "r = Some (Inr s)"
  | (revisit) k n where "in_scope P base cur" "normalizeURL P cur = Inr k"
      "pages s k = Some n" "0 < n" "r = Some (Inr (revisited s k n))"
  | (first) k where "in_scope P base cur" "normalizeURL P cur = Inr k" "\<not> seen s k"
      "r = crawl_links P d base (page_links P base cur) (marked s k cur)"
proof (cases "URL_new P cur None = None \<or> URL_new P base None = None")
  case True
  from crawlPage_throws [OF True] assms have "r = Some (Inl TypeError)" by simp
  with True show ?thesis by (rule throws)
next
  case False
  then obtain c b where c: "URL_new P cur None = Some c" and b: "URL_new P base None = Some b"
    by auto
  show ?thesis
  proof (cases "hostname c = hostname b")
    case False
    from crawlPage_skip [OF c b False] assms have "r = Some (Inr s)" by simp
    with c b False show ?thesis by (rule skip)
  next
    case True
    with c b have sc: "in_scope P base cur" by (auto simp: in_scope_def)
    from normalizeURL_parsed [OF c] obtain k where k: "normalizeURL P cur = Inr k" ..
    show ?thesis
    proof (cases "seen s k")
      case True
      then obtain n where n: "pages s k = Some n" "0 < n" by (auto simp: seen_def)
      from crawlPage_revisit [OF sc k n] assms have "r = Some (Inr (revisited s k n))" by simp
      with sc k n show ?thesis by (rule revisit)
    next
      case False
      from crawlPage_first [OF sc k False] assms
      have "r = crawl_links P d base (page_links P base cur) (marked s k cur)" by simp
      with sc k False show ?thesis by (rule first)
    qed
  qed
qed

declare crawlPage.simps(2) [simp del]

lemma crawl_links_rel:
  assumes refl: "\<And>s. R s s" and trans: "\<And>s t u. R s t \<Longrightarrow> R t u \<Longrightarrow> R s u"
    and page: "\<And>cur s s'. crawlPage P d base cur s = Some (Inr s') \<Longrightarrow> R s s'"
  shows "crawl_links P d base us s = Some (Inr s') \<Longrightarrow> R s s'"
proof (induction us arbitrary: s)
  case Nil
  then show ?case using refl by simp
next
  case (Cons u us)
  from Cons.prems obtain t where t: "crawlPage P d base u s = Some (Inr t)"
      and rest: "crawl_links P d base us t = Some (Inr s')"
    by (auto split: option.splits sum.splits)
  from page [OF t] Cons.IH [OF rest] show ?case by (rule trans)
qed

lemma crawl_rel:
  assumes refl: "\<And>s. R s s" and trans: "\<And>s t u. R s t \<Longrightarrow> R t u \<Longrightarrow> R s u"
    and revisit: "\<And>cur k n s. in_scope P base cur \<Longrightarrow> normalizeURL P cur = Inr k \<Longrightarrow>
            pages s k = Some n \<Longrightarrow> 0 < n \<Longrightarrow> R s (revisited s k n)"
    and first: "\<And>cur k s. in_scope P base cur \<Longrightarrow> normalizeURL P cur = Inr k \<Longrightarrow>
            \<not> seen s k \<Longrightarrow> R s (marked s k cur)"
  shows "crawlPage P d base cur s = Some (Inr s') \<Longrightarrow> R s s'"
proof (induction d arbitrary: cur s s')
  case 0
  then show ?case by simp
next
  case (Suc d)
  from Suc.prems show ?case
  proof (cases rule: crawlPage_Suc_cases)
    case throws
    then show ?thesis by simp
  next
    case skip
    then show ?thesis using refl by simp
  next
    case (revisit k n)
    then show ?thesis using assms(3) by auto
  next
    case (first k)
    from first(4) have "crawl_links P d base (page_links P base cur) (marked s k cur) = Some (Inr s')"
      by simp
    then have "R (marked s k cur) s'"
    proof (rule crawl_links_rel [rotated -1])
      show "R s s" for s by (rule refl)
      show "R s u" if "R s t" "R t u" for s t u using that by (rule trans)
      show "R s s'" if "crawlPage P d base cur s = Some (Inr s')" for cur s s'
        using that by (rule Suc.IH)
    qed
    with first(1-3) assms(4) trans show ?thesis by blast
  qed
qed

lemma crawl_links_rel':
  assumes refl: "\<And>s. R s s" and trans: "\<And>s t u. R s t \<Longrightarrow> R t u \<Longrightarrow> R s u"
    and revisit: "\<And>cur k n s. in_scope P base cur \<Longrightarrow> normalizeURL P cur = Inr k \<Longrightarrow>
            pages s k = Some n \<Longrightarrow> 0 < n \<Longrightarrow> R s (revisited s k n)"
    and first: "\<And>cur k s. in_scope P base cur \<Longrightarrow> normalizeURL P cur = Inr k \<Longrightarrow>
            \<not> seen s k \<Longrightarrow> R s (marked s k cur)"
  shows "crawl_links P d base us s = Some (Inr s') \<Longrightarrow> R s s'"
proof (rule crawl_links_rel [rotated -1])
  show "R s s" for s by (rule refl)
  show "R s u" if "R s t" "R t u" for s t u using that by (rule trans)
  show "R s s'" if "crawlPage P d base cur s = Some (Inr s')" for cur s s'
    using refl trans revisit first that by (rule crawl_rel [where R = R])
qed


section \<open>Crawl engine: invariants of a crawl\<close>

lemma js_inc_ge: "n \<le> js_inc n"
  by (simp add: js_inc_def)

lemma js_inc_exact: "n < 9007199254740992 \<Longrightarrow> js_inc n = n + 1"
  by (simp add: js_inc_def)

lemma js_inc_capped:
  "js_inc (min (int v) 9007199254740992) = min (int (Suc v)) 9007199254740992"
  by (simp add: js_inc_def min_def)

lemma obj_set_own: "obj k \<noteq> None \<or> k \<noteq> ''__proto__'' \<Longrightarrow> obj_set obj k v = obj(k \<mapsto> v)"
  by (auto simp: obj_set_def)

lemma obj_set_proto: "obj ''__proto__'' = None \<Longrightarrow> obj_set obj ''__proto__'' v = obj"
  by (simp add: obj_set_def)

lemma visits_snoc:
  "visits (tr @ [Visit k]) k' = (if k' = k then Suc (visits tr k') else visits tr k')"
  "visits (tr @ [Fetch u]) k' = visits tr k'"
  by (simp_all add: visits_def)

lemma fetches_snoc:
  "fetches P (tr @ [Visit k]) k' = fetches P tr k'"
  "fetches P (tr @ [Fetch u]) k' =
     (if normalizeURL P u = Inr k' then Suc (fetches P tr k') else fetches P tr k')"
  by (simp_all add: fetches_def)

lemma consistent_init: "consistent P init"
  by (simp add: consistent_def init_def visits_def fetches_def)

lemma consistent_proto: "consistent P s \<Longrightarrow> pages s ''__proto__'' = None"
  unfolding consistent_def by (metis (full_types))

lemma consistent_revisited:
  assumes "consistent P s" "pages s k = Some n" "0 < n"
  shows "consistent P (revisited s k n)"
proof -
  from assms(1,2) consistent_proto have k: "k \<noteq> ''__proto__''" by force
  with assms(1,2) have n: "visits (trace s) k \<noteq> 0"
      "n = min (int (visits (trace s) k)) 9007199254740992"
    unfolding consistent_def by (metis option.distinct(1), metis option.distinct(1) option.inject)
  have pg: "pages (revisited s k n) = (pages s)(k \<mapsto> js_inc n)"
    using k by (simp add: revisited_def obj_set_own)
  have tr: "trace (revisited s k n) = trace s @ [Visit k]" by (simp add: revisited_def)
  show ?thesis
    unfolding consistent_def
  proof (intro allI)
    fix k'
    from assms(1) have old:
      "if k' = ''__proto__''
       then pages s k' = None \<and> fetches P (trace s) k' = visits (trace s) k'
       else pages s k' = (if visits (trace s) k' = 0 then None
                          else Some (min (int (visits (trace s) k')) 9007199254740992))
          \<and> fetches P (trace s) k' = (if visits (trace s) k' = 0 then 0 else 1)"
      unfolding consistent_def by blast
    show "if k' = ''__proto__''
       then pages (revisited s k n) k' = None
          \<and> fetches P (trace (revisited s k n)) k' = visits (trace (revisited s k n)) k'
       else pages (revisited s k n) k' =
              (if visits (trace (revisited s k n)) k' = 0 then None
               else Some (min (int (visits (trace (revisited s k n)) k')) 9007199254740992))
          \<and> fetches P (trace (revisited s k n)) k' =
              (if visits (trace (revisited s k n)) k' = 0 then 0 else 1)"
    proof (cases "k' = k")
      case True
      with k n old js_inc_capped [of "visits (trace s) k"] show ?thesis
        unfolding pg tr visits_snoc fetches_snoc by (simp split: if_splits)
    next
      case False
      with old show ?thesis
        unfolding pg tr visits_snoc fetches_snoc by (simp split: if_splits)
    qed
  qed
qed

lemma consistent_marked:
  assumes "consistent P s" "\<not> seen s k" "normalizeURL P u = Inr k"
  shows "consistent P (marked s k u)"
proof -
  have tr: "trace (marked s k u) = (trace s @ [Visit k]) @ [Fetch u]" by (simp add: marked_def)
  show ?thesis
    unfolding consistent_def
  proof (intro allI)
    fix k'
    from assms(1) have old:
      "if k' = ''__proto__''
       then pages s k' = None \<and> fetches P (trace s) k' = visits (trace s) k'
       else pages s k' = (if visits (trace s) k' = 0 then None
                          else Some (min (int (visits (trace s) k')) 9007199254740992))
          \<and> fetches P (trace s) k' = (if visits (trace s) k' = 0 then 0 else 1)"
      unfolding consistent_def by blast
    show "if k' = ''__proto__''
       then pages (marked s k u) k' = None
          \<and> fetches P (trace (marked s k u)) k' = visits (trace (marked s k u)) k'
       else pages (marked s k u) k' =
              (if visits (trace (marked s k u)) k' = 0 then None
               else Some (min (int (visits (trace (marked s k u)) k')) 9007199254740992))
          \<and> fetches P (trace (marked s k u)) k' =
              (if visits (trace (marked s k u)) k' = 0 then 0 else 1)"
    proof (cases "k = ''__proto__''")
      case True
      with consistent_proto [OF assms(1)] have pg: "pages (marked s k u) = pages s"
        by (simp add: marked_def obj_set_proto)
      from True old assms(3) show ?thesis
        unfolding pg tr visits_snoc fetches_snoc by (simp split: if_splits)
    next
      case False
      then have pg: "pages (marked s k u) = (pages s)(k \<mapsto> 1)"
        by (simp add: marked_def obj_set_own)
      show ?thesis
      proof (cases "k' = k")
        case True
        with False old assms(2) have "visits (trace s) k = 0"
          by (auto simp: seen_def split: if_splits)
        with True False old assms(3) show ?thesis
          unfolding pg tr visits_snoc fetches_snoc by (simp split: if_splits)
      next
        case neq: False
        with old assms(3) show ?thesis
          unfolding pg tr visits_snoc fetches_snoc by (simp split: if_splits)
      qed
    qed
  qed
qed

lemma consistent_counts:
  assumes "consistent P s" "k \<noteq> ''__proto__''" "int (visits (trace s) k) \<le> 9007199254740992"
  shows "pages s k = (if visits (trace s) k = 0 then None else Some (int (visits (trace s) k)))
       \<and> fetches P (trace s) k = (if visits (trace s) k = 0 then 0 else 1)"
proof -
  from assms(1,2) have "pages s k = (if visits (trace s) k = 0 then None
                            else Some (min (int (visits (trace s) k)) 9007199254740992))
             \<and> fetches P (trace s) k = (if visits (trace s) k = 0 then 0 else 1)"
    unfolding consistent_def by (metis (full_types))
  with assms(3) show ?thesis by (simp add: min_def)
qed

lemma consistent_once:
  assumes "consistent P s" "k \<noteq> ''__proto__''"
  shows "fetches P (trace s) k \<le> 1"
proof -
  from assms have "fetches P (trace s) k = (if visits (trace s) k = 0 then 0 else 1)"
    unfolding consistent_def by (metis (full_types))
  then show ?thesis by simp
qed

lemma crawlPage_consistent:
  "crawlPage P d base cur s = Some (Inr s') \<Longrightarrow> consistent P s \<Longrightarrow> consistent P s'"
proof -
  assume run: "crawlPage P d base cur s = Some (Inr s')" and s: "consistent P s"
  have "consistent P s \<longrightarrow> consistent P s'"
    using _ _ _ _ run
  proof (rule crawl_rel [where R = "\<lambda>s s'. consistent P s \<longrightarrow> consistent P s'"])
    show "consistent P s \<longrightarrow> consistent P (revisited s k n)" if "pages s k = Some n" "0 < n" for s k n
      using that consistent_revisited by blast
    show "consistent P s \<longrightarrow> consistent P (marked s k cur)"
      if "normalizeURL P cur = Inr k" "\<not> seen s k" for s k cur
      using that consistent_marked by blast
  qed auto
  with s show ?thesis by simp
qed

text \<open>Counts of seen keys never decrease.\<close>

lemma crawlPage_grows: "crawlPage P d base cur s = Some (Inr s') \<Longrightarrow> grows s s'"
proof (rule crawl_rel [where R = grows])
  show "grows s s" for s by (simp add: grows_def)
  show "grows s u" if "grows s t" "grows t u" for s t u
    unfolding grows_def
  proof (intro allI impI)
    fix k n assume "pages s k = Some n \<and> 0 < n"
    with that(1) obtain m where m: "pages t k = Some m" "n \<le> m" "0 < m"
      unfolding grows_def by fastforce
    with that(2) obtain l where "pages u k = Some l" "m \<le> l" unfolding grows_def by blast
    with m show "\<exists>m. pages u k = Some m \<and> n \<le> m" by auto
  qed
  show "grows s (revisited s k n)" if "pages s k = Some n" "0 < n" for s k n
    using that js_inc_ge [of n] by (auto simp: grows_def revisited_def obj_set_def)
  show "grows s (marked s k cur)" if "\<not> seen s k" for s k cur
    using that by (auto simp: grows_def marked_def seen_def obj_set_def)
qed

lemma crawl_links_grows: "crawl_links P d base us s = Some (Inr s') \<Longrightarrow> grows s s'"
proof (rule crawl_links_rel [where R = grows, rotated -1])
  show "grows s s" for s by (simp add: grows_def)
  show "grows s u" if "grows s t" "grows t u" for s t u
    unfolding grows_def
  proof (intro allI impI)
    fix k n assume "pages s k = Some n \<and> 0 < n"
    with that(1) obtain m where m: "pages t k = Some m" "n \<le> m" "0 < m"
      unfolding grows_def by fastforce
    with that(2) obtain l where "pages u k = Some l" "m \<le> l" unfolding grows_def by blast
    with m show "\<exists>m. pages u k = Some m \<and> n \<le> m" by auto
  qed
  show "grows s s'" if "crawlPage P d base cur s = Some (Inr s')" for cur s s'
    using that by (rule crawlPage_grows)
qed

lemma crawlPage_new_keys:
  "crawlPage P d base cur s = Some (Inr s') \<Longrightarrow> pages s' k \<noteq> pages s k \<Longrightarrow>
     \<exists>v. in_scope P base v \<and> normalizeURL P v = Inr k"
proof -
  assume run: "crawlPage P d base cur s = Some (Inr s')" and k: "pages s' k \<noteq> pages s k"
  let ?R = "\<lambda>s s'. \<forall>k. pages s' k \<noteq> pages s k \<longrightarrow> (\<exists>v. in_scope P base v \<and> normalizeURL P v = Inr k)"
  have "?R s s'"
    using _ _ _ _ run
  proof (rule crawl_rel [where R = ?R])
    show "?R s s" for s by simp
    show "?R s u" if "?R s t" "?R t u" for s t u
      using that by metis
    show "?R s (revisited s k n)" if "in_scope P base cur" "normalizeURL P cur = Inr k" for s k n cur
      using that by (auto simp: revisited_def obj_set_def)
    show "?R s (marked s k cur)" if "in_scope P base cur" "normalizeURL P cur = Inr k" for s k cur
      using that by (auto simp: marked_def obj_set_def)
  qed
  with k show ?thesis by blast
qed

lemma crawlPage_fetched_in_scope:
  "crawlPage P d base cur s = Some (Inr s') \<Longrightarrow> Fetch v \<in> set (trace s') \<Longrightarrow>
     Fetch v \<in> set (trace s) \<or> in_scope P base v"
proof -
  assume run: "crawlPage P d base cur s = Some (Inr s')" and v: "Fetch v \<in> set (trace s')"
  let ?R = "\<lambda>s s'. \<forall>v. Fetch v \<in> set (trace s') \<longrightarrow> Fetch v \<in> set (trace s) \<or> in_scope P base v"
  have "?R s s'"
    using _ _ _ _ run
  proof (rule crawl_rel [where R = ?R])
    show "?R s s" for s by simp
    show "?R s u" if "?R s t" "?R t u" for s t u
      using that by blast
    show "?R s (revisited s k n)" for s k n
      by (simp add: revisited_def)
    show "?R s (marked s k cur)" if "in_scope P base cur" for s k cur
      using that by (auto simp: marked_def)
  qed
  with v show ?thesis by blast
qed

section \<open>Crawl engine: termination\<close>

lemma reachable_base: "base \<in> reachable P base"
  by (simp add: reachable_def)

lemma reachable_links:
  "u \<in> reachable P base \<Longrightarrow> in_scope P base u \<Longrightarrow> set (page_links P base u) \<subseteq> reachable P base"
  unfolding reachable_def link_rel_def
  by (auto intro: rtrancl_into_rtrancl)

lemma seen_grows: "grows s s' \<Longrightarrow> seen s k \<Longrightarrow> seen s' k"
  unfolding grows_def seen_def by fastforce

lemma unseen_card_grows:
  assumes "finite K" "grows s s'"
  shows "card (K - {k. seen s' k}) \<le> card (K - {k. seen s k})"
proof (rule card_mono)
  show "finite (K - {k. seen s k})" using assms(1) by simp
  show "K - {k. seen s' k} \<subseteq> K - {k. seen s k}" using seen_grows [OF assms(2)] by blast
qed

lemma unseen_card_marked:
  assumes "finite K" "k \<in> K" "\<not> seen s k" "k \<noteq> ''__proto__''"
  shows "card (K - {k'. seen (marked s k u) k'}) < card (K - {k'. seen s k'})"
proof (rule psubset_card_mono)
  show "finite (K - {k'. seen s k'})" using assms(1) by simp
  have "seen (marked s k u) k" using assms(4) by (simp add: seen_def marked_def obj_set_def)
  moreover have "seen (marked s k u) k'" if "seen s k'" for k'
    using that assms(3) by (auto simp: seen_def marked_def obj_set_def)
  ultimately show "K - {k'. seen (marked s k u) k'} \<subset> K - {k'. seen s k'}"
    using assms(2,3) by blast
qed

lemma crawl_links_returns:
  assumes fin: "finite (reachable_keys P base)"
    and page: "\<And>cur s. cur \<in> reachable P base \<Longrightarrow>
        card (reachable_keys P base - {k. seen s k}) \<le> m \<Longrightarrow> \<exists>r. crawlPage P d base cur s = Some r"
  shows "set us \<subseteq> reachable P base \<Longrightarrow> card (reachable_keys P base - {k. seen s k}) \<le> m \<Longrightarrow>
         \<exists>r. crawl_links P d base us s = Some r"
proof (induction us arbitrary: s)
  case Nil
  then show ?case by simp
next
  case (Cons u us)
  from Cons.prems page obtain r where r: "crawlPage P d base u s = Some r" by fastforce
  show ?case
  proof (cases r)
    case (Inl e)
    with r show ?thesis by simp
  next
    case (Inr t)
    with r have "grows s t" by (auto intro: crawlPage_grows)
    from unseen_card_grows [OF fin this] Cons.prems(2)
    have "card (reachable_keys P base - {k. seen t k}) \<le> m" by simp
    with Cons.IH Cons.prems(1) obtain r' where "crawl_links P d base us t = Some r'" by fastforce
    with r Inr show ?thesis by simp
  qed
qed

lemma crawlPage_returns:
  assumes fin: "finite (reachable_keys P base)"
    and stored: "''__proto__'' \<notin> reachable_keys P base"
  shows "cur \<in> reachable P base \<Longrightarrow> card (reachable_keys P base - {k. seen s k}) \<le> m \<Longrightarrow>
         \<exists>r. crawlPage P (Suc m) base cur s = Some r"
proof (induction m arbitrary: cur s)
  case 0
  obtain r where r: "crawlPage P (Suc 0) base cur s = r" by simp
  then show ?case
  proof (cases rule: crawlPage_Suc_cases)
    case (first k)
    with 0(1) have "k \<in> reachable_keys P base" by (auto simp: reachable_keys_def)
    with first(3) have "reachable_keys P base - {k. seen s k} \<noteq> {}" by blast
    with fin 0(2) show ?thesis by simp
  qed (use r in auto)
next
  case (Suc m)
  obtain r where r: "crawlPage P (Suc (Suc m)) base cur s = r" by simp
  then show ?case
  proof (cases rule: crawlPage_Suc_cases)
    case (first k)
    with Suc.prems(1) have k: "k \<in> reachable_keys P base" by (auto simp: reachable_keys_def)
    from k stored have "k \<noteq> ''__proto__''" by blast
    from unseen_card_marked [OF fin k first(3) this, of cur] Suc.prems(2)
    have small: "card (reachable_keys P base - {k'. seen (marked s k cur) k'}) \<le> m" by simp
    from reachable_links [OF Suc.prems(1) first(1)]
    have links: "set (page_links P base cur) \<subseteq> reachable P base" .
    have "\<exists>r. crawl_links P (Suc m) base (page_links P base cur) (marked s k cur) = Some r"
      using fin _ links small
    proof (rule crawl_links_returns)
      show "\<exists>r. crawlPage P (Suc m) base cur s = Some r"
        if "cur \<in> reachable P base" "card (reachable_keys P base - {k. seen s k}) \<le> m" for cur s
        using that by (rule Suc.IH)
    qed
    with first(4) r show ?thesis by simp
  qed (use r in auto)
qed

lemma crawl_links_mono:
  assumes page: "\<And>cur s r. crawlPage P d base cur s = Some r \<Longrightarrow> crawlPage P d' base cur s = Some r"
  shows "crawl_links P d base us s = Some r \<Longrightarrow> crawl_links P d' base us s = Some r"
proof (induction us arbitrary: s)
  case Nil
  then show ?case by simp
next
  case (Cons u us)
  from Cons.prems obtain x where x: "crawlPage P d base u s = Some x"
    by (auto split: option.splits)
  from page [OF x] have x': "crawlPage P d' base u s = Some x" .
  show ?case
  proof (cases x)
    case (Inl e)
    with x x' Cons.prems show ?thesis by auto
  next
    case (Inr t)
    with x Cons.prems have "crawl_links P d base us t = Some r" by simp
    from Cons.IH [OF this] x' Inr show ?thesis by simp
  qed
qed

lemma crawlPage_mono_Suc:
  "crawlPage P d base cur s = Some r \<Longrightarrow> crawlPage P (Suc d) base cur s = Some r"
proof (induction d arbitrary: cur s r)
  case 0
  then show ?case by simp
next
  case (Suc d)
  from Suc.prems show ?case
  proof (cases rule: crawlPage_Suc_cases)
    case throws
    with crawlPage_throws [OF throws(1)] show ?thesis by simp
  next
    case (skip c b)
    with crawlPage_skip [OF skip(1-3)] show ?thesis by simp
  next
    case (revisit k n)
    with crawlPage_revisit [OF revisit(1-4)] show ?thesis by simp
  next
    case (first k)
    from first(4) have "crawl_links P d base (page_links P base cur) (marked s k cur) = Some r"
      by simp
    then have "crawl_links P (Suc d) base (page_links P base cur) (marked s k cur) = Some r"
    proof (rule crawl_links_mono [rotated -1])
      show "crawlPage P (Suc d) base cur s = Some r" if "crawlPage P d base cur s = Some r" for cur s r
        using that by (rule Suc.IH)
    qed
    with crawlPage_first [OF first(1-3)] show ?thesis by simp
  qed
qed

lemma crawlPage_mono:
  "crawlPage P d base cur s = Some r \<Longrightarrow> d \<le> d' \<Longrightarrow> crawlPage P d' base cur s = Some r"
proof -
  assume run: "crawlPage P d base cur s = Some r" and le: "d \<le> d'"
  have "crawlPage P (d + n) base cur s = Some r" for n
  proof (induction n)
    case 0
    from run show ?case by simp
  next
    case (Suc n)
    then have "crawlPage P (Suc (d + n)) base cur s = Some r" by (rule crawlPage_mono_Suc)
    then show ?case by (simp only: add_Suc_right)
  qed
  from this [of "d' - d"] le show ?thesis by simp
qed

lemma reachable_subset:
  assumes "base \<in> S"
    and "\<And>u v. u \<in> S \<Longrightarrow> v \<in> set (page_links P base u) \<Longrightarrow> v \<in> S"
  shows "reachable P base \<subseteq> S"
proof
  fix u assume "u \<in> reachable P base"
  then have "(base, u) \<in> (link_rel P base)\<^sup>*" by (simp add: reachable_def)
  then show "u \<in> S"
    by (induction rule: rtrancl_induct) (use assms in \<open>auto simp: link_rel_def\<close>)
qed

lemma finite_reachable_keys:
  assumes "finite (reachable P base)"
  shows "finite (reachable_keys P base)"
proof (rule finite_subset)
  show "reachable_keys P base \<subseteq> (\<lambda>u. case normalizeURL P u of Inr k \<Rightarrow> k | Inl _ \<Rightarrow> []) ` reachable P base"
    by (force simp: reachable_keys_def)
  show "finite ((\<lambda>u. case normalizeURL P u of Inr k \<Rightarrow> k | Inl _ \<Rightarrow> []) ` reachable P base)"
    using assms by simp
qed

lemma example_closed:
  "list_all (\<lambda>u. list_all (\<lambda>v. v \<in> set example_urls) (page_links example ''https://h.co'' u)) example_urls"
  by code_simp

lemma example_reachable: "reachable example ''https://h.co'' \<subseteq> set example_urls"
proof (rule reachable_subset)
  show "''https://h.co'' \<in> set example_urls" by (simp add: example_urls_def)
  show "v \<in> set example_urls" if "u \<in> set example_urls" "v \<in> set (page_links example ''https://h.co'' u)" for u v
    using example_closed that unfolding list_all_iff by blast
qed

lemma example_finite: "finite (reachable_keys example ''https://h.co'')"
  by (rule finite_reachable_keys, rule finite_subset, rule example_reachable) simp

lemma example_keys:
  "list_all (\<lambda>u. normalizeURL example u \<noteq> Inr ''__proto__'') example_urls"
  by code_simp

lemma example_no_proto: "''__proto__'' \<notin> reachable_keys example ''https://h.co''"
  using example_reachable example_keys unfolding reachable_keys_def list_all_iff by blast


section \<open>A crawl of the example site\<close>

lemma example_base:
  "URL_new example ''https://h.co'' None =
     Some \<lparr>href = ''https://h.co/'', host = ''h.co'', hostname = ''h.co'',
           pathname = ''/'', search = [], hash = []\<rparr>"
  by code_simp

lemma example_other:
  "URL_new example ''https://other.com/z'' None =
     Some \<lparr>href = ''https://other.com/z'', host = ''other.com'', hostname = ''other.com'',
           pathname = ''/z'', search = [], hash = []\<rparr>"
  by code_simp

lemma example_b_slash:
  "URL_new example ''https://h.co/b/'' None =
     Some \<lparr>href = ''https://h.co/b/'', host = ''h.co'', hostname = ''h.co'',
           pathname = ''/b/'', search = [], hash = []\<rparr>"
  by code_simp

lemma example_crawl:
  "map_option (map_sum id (\<lambda>s. (map (pages s) [''h.co'', ''h.co/b'', ''h.co/c'', ''h.co/d'', ''h.co/e''],
                                   trace s)))
     (crawl example 3 ''https://h.co'') =
   Some (Inr ([Some 3, Some 2, Some 2, Some 1, Some 1],
              [Visit ''h.co'', Fetch ''https://h.co'', Visit ''h.co/b'', Fetch ''https://h.co/b'',
               Visit ''h.co'', Visit ''h.co/b'', Visit ''h.co/c'', Fetch ''https://h.co/c?x=1'',
               Visit ''h.co/c'', Visit ''h.co/d'', Fetch ''https://h.co/d'', Visit ''h.co/e'',
               Fetch ''https://h.co/e'', Visit ''h.co'']))"
  by code_simp

lemma example_crawl_state:
  obtains s where "crawl example 3 ''https://h.co'' = Some (Inr s)"
    "pages s ''h.co'' = Some 3" "pages s ''h.co/b'' = Some 2" "pages s ''h.co/e'' = Some 1"
    "trace s = [Visit ''h.co'', Fetch ''https://h.co'', Visit ''h.co/b'', Fetch ''https://h.co/b'',
               Visit ''h.co'', Visit ''h.co/b'', Visit ''h.co/c'', Fetch ''https://h.co/c?x=1'',
               Visit ''h.co/c'', Visit ''h.co/d'', Fetch ''https://h.co/d'', Visit ''h.co/e'',
               Fetch ''https://h.co/e'', Visit ''h.co'']"
proof -
  from example_crawl obtain x where x: "crawl example 3 ''https://h.co'' = Some x" by blast
  show ?thesis
  proof (cases x)
    case (Inl e)
    with x example_crawl show ?thesis by simp
  next
    case (Inr s)
    with x example_crawl that show ?thesis by simp
  qed
qed

text \<open>
  The scope check compares hostnames, which carry no port: a URL on another port of
  the base's hostname is in scope, and its key has the port.
\<close>

lemma other_port_in_scope:
  "in_scope example ''https://h.co'' ''https://h.co:8080/x''"
  "normalizeURL example ''https://h.co:8080/x'' = Inr ''h.co:8080/x''"
proof -
  have "URL_new example ''https://h.co:8080/x'' None =
     Some \<lparr>href = ''https://h.co:8080/x'', host = ''h.co:8080'', hostname = ''h.co'',
           pathname = ''/x'', search = [], hash = []\<rparr>"
    by code_simp
  with example_base show "in_scope example ''https://h.co'' ''https://h.co:8080/x''"
    by (simp add: in_scope_def)
  show "normalizeURL example ''https://h.co:8080/x'' = Inr ''h.co:8080/x''"
    by code_simp
qed

section \<open>Crawl engine: the claims\<close>

text \<open>
  What a first visit does under a key that the object stores, which is every key but
  \<^verbatim>\<open>__proto__\<close> where the object has no own property of that name: the key is set
  to 1 and the URL is fetched. If \<^verbatim>\<open>getHTML\<close> throws or returns \<^verbatim>\<open>undefined\<close>, the
  call returns that state, also when no nested call is allowed. If it returns a page,
  the loop over its links starts from that state, in which the key is already 1.
  Whatever the call returns, the key is there with a count of at least 1.
\<close>

lemma first_visit_marks:
  assumes "URL_new P currentURL None = Some c" "URL_new P baseURL None = Some b"
    and "hostname c = hostname b"
    and "normalizeURL P currentURL = Inr k" "\<not> (\<exists>n. pages s k = Some n \<and> 0 < n)"
    and "k \<noteq> ''__proto__'' \<or> pages s k \<noteq> None"
  shows "((\<exists>e. getHTML P currentURL = Inl e) \<or> getHTML P currentURL = Inr None \<longrightarrow>
            crawlPage P (Suc d) baseURL currentURL s =
              Some (Inr (s\<lparr>pages := (pages s)(k \<mapsto> 1),
                            trace := trace s @ [Visit k, Fetch currentURL]\<rparr>)))
       \<and> (\<forall>html. getHTML P currentURL = Inr (Some html) \<and> html \<noteq> [] \<longrightarrow>
            crawlPage P (Suc d) baseURL currentURL s =
              crawl_links P d baseURL (getURLsFromHTML P html baseURL)
                (s\<lparr>pages := (pages s)(k \<mapsto> 1), trace := trace s @ [Visit k, Fetch currentURL]\<rparr>))
       \<and> (\<forall>s'. crawlPage P (Suc d) baseURL currentURL s = Some (Inr s') \<longrightarrow>
            (\<exists>n. pages s' k = Some n \<and> 1 \<le> n))"
proof -
  from assms(1-3) have sc: "in_scope P baseURL currentURL" by (auto simp: in_scope_def)
  from assms(5) have ns: "\<not> seen s k" by (simp add: seen_def)
  from assms(6) have "pages s k \<noteq> None \<or> k \<noteq> ''__proto__''" by blast
  then have mk: "marked s k currentURL =
      s\<lparr>pages := (pages s)(k \<mapsto> 1), trace := trace s @ [Visit k, Fetch currentURL]\<rparr>"
    by (simp add: marked_def obj_set_own)
  note eq = crawlPage_first [OF sc assms(4) ns, of d]
  have 1: "crawlPage P (Suc d) baseURL currentURL s = Some (Inr (marked s k currentURL))"
    if "(\<exists>e. getHTML P currentURL = Inl e) \<or> getHTML P currentURL = Inr None"
    using that eq by (auto simp: page_links_def)
  have 2: "crawlPage P (Suc d) baseURL currentURL s =
              crawl_links P d baseURL (getURLsFromHTML P html baseURL) (marked s k currentURL)"
    if "getHTML P currentURL = Inr (Some html) \<and> html \<noteq> []" for html
    using that eq by (auto simp: page_links_def)
  have 3: "\<exists>n. pages s' k = Some n \<and> 1 \<le> n"
    if "crawlPage P (Suc d) baseURL currentURL s = Some (Inr s')" for s'
  proof -
    from that eq have "grows (marked s k currentURL) s'" by (auto intro: crawl_links_grows)
    moreover have "pages (marked s k currentURL) k = Some 1" by (simp add: mk)
    ultimately show ?thesis unfolding grows_def by fastforce
  qed
  from 1 2 3 show ?thesis unfolding mk by blast
qed

lemma first_visit_marks_example:
  "getHTML example ''https://h.co/zz'' = Inl (NetworkError ''Got Network error: fetch failed'')
   \<and> crawlPage example 1 ''https://h.co'' ''https://h.co/zz'' init =
        Some (Inr (init\<lparr>pages := (pages init)(''h.co/zz'' \<mapsto> 1),
                        trace := trace init @ [Visit ''h.co/zz'', Fetch ''https://h.co/zz'']\<rparr>))
   \<and> getHTML example ''https://h.co/d'' = Inr None
   \<and> crawlPage example 1 ''https://h.co'' ''https://h.co/d'' init =
        Some (Inr (init\<lparr>pages := (pages init)(''h.co/d'' \<mapsto> 1),
                        trace := trace init @ [Visit ''h.co/d'', Fetch ''https://h.co/d'']\<rparr>))
   \<and> getHTML example ''https://h.co/b'' = Inr (Some b_html) \<and> b_html \<noteq> []
   \<and> crawlPage example 3 ''https://h.co'' ''https://h.co/b'' init =
        crawl_links example 2 ''https://h.co'' (getURLsFromHTML example b_html ''https://h.co'')
          (init\<lparr>pages := (pages init)(''h.co/b'' \<mapsto> 1),
                 trace := trace init @ [Visit ''h.co/b'', Fetch ''https://h.co/b'']\<rparr>)
   \<and> (\<exists>s'. crawlPage example 3 ''https://h.co'' ''https://h.co/b'' init = Some (Inr s')
          \<and> pages s' ''h.co/b'' = Some 3)"
proof -
  have fresh: "\<not> (\<exists>n. pages init k = Some n \<and> 0 < n)" for k by (simp add: init_def)
  have zz: "URL_new example ''https://h.co/zz'' None =
     Some \<lparr>href = ''https://h.co/zz'', host = ''h.co'', hostname = ''h.co'',
           pathname = ''/zz'', search = [], hash = []\<rparr>"
    by code_simp
  have kzz: "normalizeURL example ''https://h.co/zz'' = Inr ''h.co/zz''" by code_simp
  have gzz: "getHTML example ''https://h.co/zz'' = Inl (NetworkError ''Got Network error: fetch failed'')"
    by code_simp
  have d: "URL_new example ''https://h.co/d'' None =
     Some \<lparr>href = ''https://h.co/d'', host = ''h.co'', hostname = ''h.co'',
           pathname = ''/d'', search = [], hash = []\<rparr>"
    by code_simp
  have kd: "normalizeURL example ''https://h.co/d'' = Inr ''h.co/d''" by code_simp
  have gd: "getHTML example ''https://h.co/d'' = Inr None" by code_simp
  have b: "URL_new example ''https://h.co/b'' None =
     Some \<lparr>href = ''https://h.co/b'', host = ''h.co'', hostname = ''h.co'',
           pathname = ''/b'', search = [], hash = []\<rparr>"
    by code_simp
  have kb: "normalizeURL example ''https://h.co/b'' = Inr ''h.co/b''" by code_simp
  have gb: "getHTML example ''https://h.co/b'' = Inr (Some b_html)" by code_simp
  have nb: "b_html \<noteq> []" by (simp add: b_html_def)
  have eb: "map_option (map_sum id (\<lambda>s. pages s ''h.co/b''))
              (crawlPage example 3 ''https://h.co'' ''https://h.co/b'' init) = Some (Inr (Some 3))"
    by code_simp
  have 1: "crawlPage example 1 ''https://h.co'' ''https://h.co/zz'' init =
        Some (Inr (init\<lparr>pages := (pages init)(''h.co/zz'' \<mapsto> 1),
                        trace := trace init @ [Visit ''h.co/zz'', Fetch ''https://h.co/zz'']\<rparr>))"
    using first_visit_marks [OF zz example_base _ kzz fresh, of 0] gzz by simp
  have 2: "crawlPage example 1 ''https://h.co'' ''https://h.co/d'' init =
        Some (Inr (init\<lparr>pages := (pages init)(''h.co/d'' \<mapsto> 1),
                        trace := trace init @ [Visit ''h.co/d'', Fetch ''https://h.co/d'']\<rparr>))"
    using first_visit_marks [OF d example_base _ kd fresh, of 0] gd by simp
  have 3: "crawlPage example 3 ''https://h.co'' ''https://h.co/b'' init =
        crawl_links example 2 ''https://h.co'' (getURLsFromHTML example b_html ''https://h.co'')
          (init\<lparr>pages := (pages init)(''h.co/b'' \<mapsto> 1),
                 trace := trace init @ [Visit ''h.co/b'', Fetch ''https://h.co/b'']\<rparr>)"
    using first_visit_marks [OF b example_base _ kb fresh, of 2] gb nb
    by (simp del: crawl_links.simps)
  from eb obtain x where x: "crawlPage example 3 ''https://h.co'' ''https://h.co/b'' init = Some x"
    by blast
  have 4: "\<exists>s'. crawlPage example 3 ''https://h.co'' ''https://h.co/b'' init = Some (Inr s')
          \<and> pages s' ''h.co/b'' = Some 3"
  proof (cases x)
    case (Inl e)
    with x eb show ?thesis by simp
  next
    case (Inr s')
    with x eb show ?thesis by simp
  qed
  from gzz 1 gd 2 gb nb 3 4 show ?thesis by blast
qed

text \<open>
  Claim C4 says that a first visit sets the count of the key to 1 before the fetch,
  and that the 1 is still there when the fetch fails. The code does not do so under
  the key \<^verbatim>\<open>__proto__\<close>: the crawl of \<^verbatim>\<open>http://__proto__/\<close>, a first visit with
  this key whose fetch fails, returns an object without the key.
\<close>

theorem first_visit_proto_not_marked:
  "URL_new (web [] []) ''http://__proto__/'' None =
     Some \<lparr>href = ''http://__proto__/'', host = ''__proto__'', hostname = ''__proto__'',
           pathname = ''/'', search = [], hash = []\<rparr>
   \<and> normalizeURL (web [] []) ''http://__proto__/'' = Inr ''__proto__''
   \<and> getHTML (web [] []) ''http://__proto__/'' = Inl (NetworkError ''Got Network error: fetch failed'')
   \<and> map_option (map_sum id (\<lambda>s. (pages s ''__proto__'', trace s)))
        (crawl (web [] []) 1 ''http://__proto__/'')
       = Some (Inr (None, [Visit ''__proto__'', Fetch ''http://__proto__/'']))"
  by code_simp

text \<open>
  Claim C1, as stated, fails in three ways. When the hostname of \<^verbatim>\<open>currentURL\<close> is
  not that of \<^verbatim>\<open>baseURL\<close>, the call returns before it looks at the object, and a key
  that is there with count 1 keeps this count. A count of \<open>2^53\<close> is not changed by
  the increment. And in the crawl of the site on \<^verbatim>\<open>__proto__\<close> whose two pages link
  to each other, the key \<^verbatim>\<open>__proto__\<close> is met twice and fetched twice, and has no
  count in the end.
\<close>

theorem revisit_counterexample:
  "URL_new example ''https://other.com/z'' None =
     Some \<lparr>href = ''https://other.com/z'', host = ''other.com'', hostname = ''other.com'',
           pathname = ''/z'', search = [], hash = []\<rparr>
   \<and> normalizeURL example ''https://other.com/z'' = Inr ''other.com/z''
   \<and> map_option (map_sum id (\<lambda>s. (pages s ''other.com/z'', trace s)))
        (crawlPage example 1 ''https://h.co'' ''https://other.com/z''
           \<lparr>pages = [''other.com/z'' \<mapsto> 1], trace = []\<rparr>)
       = Some (Inr (Some 1, []))
   \<and> normalizeURL example ''https://h.co/b'' = Inr ''h.co/b''
   \<and> map_option (map_sum id (\<lambda>s. (pages s ''h.co/b'', trace s)))
        (crawlPage example 1 ''https://h.co'' ''https://h.co/b''
           \<lparr>pages = [''h.co/b'' \<mapsto> 9007199254740992], trace = []\<rparr>)
       = Some (Inr (Some 9007199254740992, [Visit ''h.co/b'']))
   \<and> map_option (map_sum id (\<lambda>s. (pages s ''__proto__'', pages s ''__proto__/b'', trace s)))
        (crawl proto_pair 4 ''http://__proto__/'')
       = Some (Inr (None, Some 2,
                    [Visit ''__proto__'', Fetch ''http://__proto__/'',
                     Visit ''__proto__/b'', Fetch ''http://__proto__/b'',
                     Visit ''__proto__'', Fetch ''http://__proto__/'',
                     Visit ''__proto__/b'']))"
  by code_simp

text \<open>
  Claim C1, amended. When \<^verbatim>\<open>currentURL\<close> has the hostname of \<^verbatim>\<open>baseURL\<close> and its
  key has a positive integer count below \<open>2^53\<close>, the call adds one to that count
  and returns, with no fetch, also when no nested call is allowed. In the state a
  crawl returns, the count of every key other than \<^verbatim>\<open>__proto__\<close> is the number of
  calls that passed the scope check with this key, as long as that number is at most
  \<open>2^53\<close>, and the URLs with this key have been fetched once between them if there
  was such a call, never otherwise.
\<close>

theorem revisit_only_counts:
  assumes "URL_new P currentURL None = Some c" "URL_new P baseURL None = Some b"
    and "hostname c = hostname b"
    and "normalizeURL P currentURL = Inr k" "pages s k = Some n" "0 < n"
    and "n < 9007199254740992"
  shows "crawlPage P (Suc d) baseURL currentURL s =
           Some (Inr (s\<lparr>pages := (pages s)(k \<mapsto> n + 1), trace := trace s @ [Visit k]\<rparr>))
       \<and> (\<forall>d' u s' k'. crawl P d' u = Some (Inr s') \<and> k' \<noteq> ''__proto__''
               \<and> int (visits (trace s') k') \<le> 9007199254740992 \<longrightarrow>
             pages s' k' = (if visits (trace s') k' = 0 then None
                            else Some (int (visits (trace s') k')))
           \<and> fetches P (trace s') k' = (if visits (trace s') k' = 0 then 0 else 1))"
proof -
  from assms(1-3) have "in_scope P baseURL currentURL" by (auto simp: in_scope_def)
  from crawlPage_revisit [OF this assms(4-6)] assms(5,7)
  have 1: "crawlPage P (Suc d) baseURL currentURL s =
           Some (Inr (s\<lparr>pages := (pages s)(k \<mapsto> n + 1), trace := trace s @ [Visit k]\<rparr>))"
    by (simp add: revisited_def obj_set_own js_inc_exact)
  have 2: "pages s' k' = (if visits (trace s') k' = 0 then None
                            else Some (int (visits (trace s') k')))
           \<and> fetches P (trace s') k' = (if visits (trace s') k' = 0 then 0 else 1)"
    if "crawl P d' u = Some (Inr s') \<and> k' \<noteq> ''__proto__''
          \<and> int (visits (trace s') k') \<le> 9007199254740992" for d' u s' k'
  proof -
    from that have "consistent P s'"
      unfolding crawl_def by (auto intro: crawlPage_consistent consistent_init)
    with that show ?thesis by (rule_tac consistent_counts) auto
  qed
  have "\<forall>d' u s' k'. crawl P d' u = Some (Inr s') \<and> k' \<noteq> ''__proto__''
               \<and> int (visits (trace s') k') \<le> 9007199254740992 \<longrightarrow>
             pages s' k' = (if visits (trace s') k' = 0 then None
                            else Some (int (visits (trace s') k')))
           \<and> fetches P (trace s') k' = (if visits (trace s') k' = 0 then 0 else 1)"
    by (intro allI impI) (rule 2)
  with 1 show ?thesis by (rule conjI)
qed

theorem revisit_only_counts_witness:
  "\<exists>s. crawl example 3 ''https://h.co'' = Some (Inr s)
      \<and> pages s ''h.co/b'' = Some 2
      \<and> normalizeURL example ''https://h.co/b/'' = Inr ''h.co/b''
      \<and> crawlPage example 1 ''https://h.co'' ''https://h.co/b/'' s =
          Some (Inr (s\<lparr>pages := (pages s)(''h.co/b'' \<mapsto> 3), trace := trace s @ [Visit ''h.co/b'']\<rparr>))
      \<and> visits (trace s) ''h.co'' = 3 \<and> pages s ''h.co'' = Some 3
      \<and> fetches example (trace s) ''h.co'' = 1"
proof -
  obtain s where s: "crawl example 3 ''https://h.co'' = Some (Inr s)"
    "pages s ''h.co'' = Some 3" "pages s ''h.co/b'' = Some 2" "pages s ''h.co/e'' = Some 1"
    "trace s = [Visit ''h.co'', Fetch ''https://h.co'', Visit ''h.co/b'', Fetch ''https://h.co/b'',
               Visit ''h.co'', Visit ''h.co/b'', Visit ''h.co/c'', Fetch ''https://h.co/c?x=1'',
               Visit ''h.co/c'', Visit ''h.co/d'', Fetch ''https://h.co/d'', Visit ''h.co/e'',
               Fetch ''https://h.co/e'', Visit ''h.co'']"
    by (rule example_crawl_state)
  have k: "normalizeURL example ''https://h.co/b/'' = Inr ''h.co/b''" by code_simp
  have hn: "hostname \<lparr>href = ''https://h.co/b/'', host = ''h.co'', hostname = ''h.co'',
                       pathname = ''/b/'', search = [], hash = []\<rparr>
          = hostname \<lparr>href = ''https://h.co/'', host = ''h.co'', hostname = ''h.co'',
                       pathname = ''/'', search = [], hash = []\<rparr>"
    by simp
  have pos: "(0::int) < 2" "(2::int) < 9007199254740992" by simp_all
  note T = revisit_only_counts [OF example_b_slash example_base hn k s(3) pos, of 0]
  from T [THEN conjunct1]
  have 1: "crawlPage example 1 ''https://h.co'' ''https://h.co/b/'' s =
          Some (Inr (s\<lparr>pages := (pages s)(''h.co/b'' \<mapsto> 3), trace := trace s @ [Visit ''h.co/b'']\<rparr>))"
    by simp
  have v: "visits (trace s) ''h.co'' = 3" unfolding s(5) by code_simp
  have ne: "''h.co'' \<noteq> ''__proto__''" by simp
  have le: "int (visits (trace s) ''h.co'') \<le> 9007199254740992" unfolding v by simp
  note U = T [THEN conjunct2, rule_format, OF conjI [OF s(1) conjI [OF ne le]]]
  from U [THEN conjunct2] have f: "fetches example (trace s) ''h.co'' = 1" unfolding v by simp
  show ?thesis
    by (rule exI [of _ s]) (intro conjI s(1) s(3) k 1 v s(2) f)
qed

text \<open>
  Claim C2. A call whose \<^verbatim>\<open>currentURL\<close> has another hostname than \<^verbatim>\<open>baseURL\<close>
  returns the state it was given: no count changes, nothing is fetched, and this
  holds also when no nested call is allowed. So the entries that a crawl under this
  base adds or changes are those of the keys of in-scope URLs, and the URL itself is
  never fetched in such a crawl.
\<close>

theorem out_of_scope_unchanged:
  assumes "URL_new P currentURL None = Some c" "URL_new P baseURL None = Some b"
    and "hostname c \<noteq> hostname b"
  shows "crawlPage P (Suc d) baseURL currentURL s = Some (Inr s)
       \<and> (\<forall>d' u t t' k. crawlPage P d' baseURL u t = Some (Inr t') \<and> pages t' k \<noteq> pages t k
             \<longrightarrow> (\<exists>v. in_scope P baseURL v \<and> normalizeURL P v = Inr k))
       \<and> (\<forall>d' u t t'. crawlPage P d' baseURL u t = Some (Inr t')
             \<and> Fetch currentURL \<notin> set (trace t) \<longrightarrow> Fetch currentURL \<notin> set (trace t'))"
proof -
  from assms have "\<not> in_scope P baseURL currentURL" by (auto simp: in_scope_def)
  with crawlPage_skip [OF assms] crawlPage_new_keys crawlPage_fetched_in_scope
  show ?thesis by blast
qed

theorem out_of_scope_unchanged_witness:
  "URL_new example ''https://other.com/z'' None =
     Some \<lparr>href = ''https://other.com/z'', host = ''other.com'', hostname = ''other.com'',
           pathname = ''/z'', search = [], hash = []\<rparr>
   \<and> URL_new example ''https://h.co'' None =
     Some \<lparr>href = ''https://h.co/'', host = ''h.co'', hostname = ''h.co'',
           pathname = ''/'', search = [], hash = []\<rparr>
   \<and> crawlPage example 1 ''https://h.co'' ''https://other.com/z'' init = Some (Inr init)
   \<and> (\<exists>s. crawl example 3 ''https://h.co'' = Some (Inr s)
          \<and> pages s ''h.co/e'' \<noteq> pages init ''h.co/e''
          \<and> (\<exists>v. in_scope example ''https://h.co'' v \<and> normalizeURL example v = Inr ''h.co/e'')
          \<and> Fetch ''https://other.com/z'' \<notin> set (trace init)
          \<and> Fetch ''https://other.com/z'' \<notin> set (trace s))"
proof -
  have ne: "hostname \<lparr>href = ''https://other.com/z'', host = ''other.com'', hostname = ''other.com'',
           pathname = ''/z'', search = [], hash = []\<rparr>
         \<noteq> hostname \<lparr>href = ''https://h.co/'', host = ''h.co'', hostname = ''h.co'',
           pathname = ''/'', search = [], hash = []\<rparr>"
    by simp
  note T = out_of_scope_unchanged [OF example_other example_base ne, of 0 init]
  obtain s where s: "crawl example 3 ''https://h.co'' = Some (Inr s)" "pages s ''h.co/e'' = Some 1"
    by (rule example_crawl_state)
  from s(2) have ch: "pages s ''h.co/e'' \<noteq> pages init ''h.co/e''" by (simp add: init_def)
  have nf: "Fetch ''https://other.com/z'' \<notin> set (trace init)" by (simp add: init_def)
  from s(1) have run: "crawlPage example 3 ''https://h.co'' ''https://h.co'' init = Some (Inr s)"
    by (simp add: crawl_def)
  with T ch have 1: "\<exists>v. in_scope example ''https://h.co'' v \<and> normalizeURL example v = Inr ''h.co/e''"
    by blast
  from T run nf have 2: "Fetch ''https://other.com/z'' \<notin> set (trace s)" by blast
  from T have 3: "crawlPage example 1 ''https://h.co'' ''https://other.com/z'' init = Some (Inr init)"
    by simp
  from 1 2 3 s ch nf example_other example_base show ?thesis by blast
qed

text \<open>
  When \<^verbatim>\<open>__proto__\<close> is not among the keys of the in-scope URLs reachable from
  \<^verbatim>\<open>baseURL\<close> and these keys are finitely many, \<open>n\<close> say, the crawl returns or throws
  with at most \<open>n\<close> calls nested in the first one: every bound on the depth above
  \<open>n\<close> gives the same result. In the state returned, no such key has been fetched
  twice.
\<close>

lemma crawl_terminates:
  assumes "finite (reachable_keys P baseURL)" "''__proto__'' \<notin> reachable_keys P baseURL"
  shows "\<exists>r. (\<forall>d. card (reachable_keys P baseURL) < d \<longrightarrow> crawl P d baseURL = Some r)
           \<and> (\<forall>s' k. r = Inr s' \<and> k \<noteq> ''__proto__'' \<longrightarrow> fetches P (trace s') k \<le> 1)"
proof -
  let ?n = "card (reachable_keys P baseURL)"
  have "card (reachable_keys P baseURL - {k. seen init k}) \<le> ?n"
    using assms(1) by (simp add: card_mono)
  from crawlPage_returns [OF assms reachable_base this]
  obtain r where r: "crawlPage P (Suc ?n) baseURL baseURL init = Some r" by blast
  have "crawl P d baseURL = Some r" if "?n < d" for d
    unfolding crawl_def by (rule crawlPage_mono [OF r]) (use that in simp)
  moreover have "fetches P (trace s') k \<le> 1" if "r = Inr s' \<and> k \<noteq> ''__proto__''" for s' k
  proof -
    from r that have "consistent P s'"
      by (auto intro: crawlPage_consistent consistent_init)
    with that show ?thesis by (rule_tac consistent_once) auto
  qed
  ultimately show ?thesis by blast
qed

lemma crawl_terminates_example:
  "finite (reachable_keys example ''https://h.co'')
   \<and> (\<exists>s. crawl example (Suc (card (reachable_keys example ''https://h.co''))) ''https://h.co''
            = Some (Inr s)
          \<and> crawl example 3 ''https://h.co'' = Some (Inr s)
          \<and> fetches example (trace s) ''h.co'' \<le> 1)"
proof -
  let ?n = "card (reachable_keys example ''https://h.co'')"
  from crawl_terminates [OF example_finite example_no_proto]
  obtain r where r: "\<And>d. ?n < d \<Longrightarrow> crawl example d ''https://h.co'' = Some r"
    and f: "\<And>s' k. r = Inr s' \<and> k \<noteq> ''__proto__'' \<Longrightarrow> fetches example (trace s') k \<le> 1"
    by blast
  obtain s where s: "crawl example 3 ''https://h.co'' = Some (Inr s)"
    by (rule example_crawl_state)
  have "r = Inr s"
  proof (cases "?n < 3")
    case True
    from r [OF True] s show ?thesis by simp
  next
    case False
    then have "3 \<le> Suc ?n" by simp
    with s have "crawl example (Suc ?n) ''https://h.co'' = Some (Inr s)"
      unfolding crawl_def by (rule crawlPage_mono)
    with r [of "Suc ?n"] show ?thesis by simp
  qed
  with r [of "Suc ?n"] f [of s "''h.co''"] s example_finite show ?thesis by auto
qed

text \<open>
  Claim C9 says that the crawl terminates when the reachable keys are finitely many,
  each fetched at most once. The code does not do so on the site \<^verbatim>\<open>__proto__\<close>
  whose only page links to itself: there is one reachable key, the first visit does
  not store it, so every nested call is a first visit again, fetches again and
  recurses again, and no bound on the depth of the calls is enough for the crawl to
  return.
\<close>

theorem proto_loop_never_returns:
  "finite (reachable_keys proto_loop ''http://__proto__/'')
   \<and> normalizeURL proto_loop ''http://__proto__/'' = Inr ''__proto__''
   \<and> page_links proto_loop ''http://__proto__/'' ''http://__proto__/'' = [''http://__proto__/'']
   \<and> (\<forall>d. crawl proto_loop d ''http://__proto__/'' = None)"
proof -
  let ?B = "''http://__proto__/''"
  have p: "URL_new proto_loop ?B None =
     Some \<lparr>href = ''http://__proto__/'', host = ''__proto__'', hostname = ''__proto__'',
           pathname = ''/'', search = [], hash = []\<rparr>"
    by code_simp
  then have sc: "in_scope proto_loop ?B ?B" by (simp add: in_scope_def)
  have k: "normalizeURL proto_loop ?B = Inr ''__proto__''" by code_simp
  have l: "page_links proto_loop ?B ?B = [?B]" by code_simp
  have "reachable proto_loop ?B \<subseteq> {?B}"
    by (rule reachable_subset) (use l in auto)
  then have fin: "finite (reachable_keys proto_loop ?B)"
    by (intro finite_reachable_keys) (auto intro: finite_subset)
  have loop: "crawlPage proto_loop d ?B ?B s = None" if "pages s ''__proto__'' = None" for d s
    using that
  proof (induction d arbitrary: s)
    case 0
    show ?case by simp
  next
    case (Suc d)
    from Suc.prems have ns: "\<not> seen s ''__proto__''" by (simp add: seen_def)
    from Suc.prems have "pages (marked s ''__proto__'' ?B) ''__proto__'' = None"
      by (simp add: marked_def obj_set_proto)
    then have "crawlPage proto_loop d ?B ?B (marked s ''__proto__'' ?B) = None"
      by (rule Suc.IH)
    with crawlPage_first [OF sc k ns, of d] l show ?case by simp
  qed
  have "crawl proto_loop d ?B = None" for d
    unfolding crawl_def by (rule loop) (simp add: init_def)
  with fin k l show ?thesis by blast
qed

end
